theory Spec2Isabelle
  imports Complex_Main "HOL-Library.Char_ord" "HOL-Library.List_Lexorder"
    "HOL-Library.Product_Lexorder" "HOL-Library.Sublist" "HOL-Library.Code_Target_Numeral"
begin

section \<open>The model\<close>

subsection \<open>Strings and integers of the host language\<close>

text \<open>
  A string is a list of characters, and a character is a code unit from \<open>U+0000\<close> to
  \<open>U+00FF\<close>: the strings of this development are the strings of the language whose
  characters are in the Latin-1 range. The white space that \<^verbatim>\<open>trim\<close>, \<^verbatim>\<open>parseInt\<close> and
  \<^verbatim>\<open>parseFloat\<close> skip is, in this range, the space, the tab, the four line and page
  controls and the no-break space \<open>U+00A0\<close>.
\<close>

definition is_ws :: "char \<Rightarrow> bool" where
  "is_ws c = (c \<in> set [CHR '' '', CHR 0x09, CHR 0x0A, CHR 0x0B, CHR 0x0C, CHR 0x0D, CHR 0xA0])"

definition trimStart :: "string \<Rightarrow> string" where
  "trimStart s = dropWhile is_ws s"

definition trimEnd :: "string \<Rightarrow> string" where
  "trimEnd s = rev (dropWhile is_ws (rev s))"

definition trim :: "string \<Rightarrow> string" where
  "trim s = trimEnd (trimStart s)"

text \<open>
  \<^verbatim>\<open>toLowerCase\<close> maps every character on its own in this range: the letters \<open>A\<close> to
  \<open>Z\<close>, and the letters from \<open>U+00C0\<close> to \<open>U+00DE\<close> (all but the multiplication sign
  \<open>U+00D7\<close>), go to the character 32 places further on; every other character stays.
\<close>

definition upper_letters :: "char list" where
  "upper_letters = ''ABCDEFGHIJKLMNOPQRSTUVWXYZ'' @
     [CHR 0xC0, CHR 0xC1, CHR 0xC2, CHR 0xC3, CHR 0xC4, CHR 0xC5, CHR 0xC6, CHR 0xC7,
      CHR 0xC8, CHR 0xC9, CHR 0xCA, CHR 0xCB, CHR 0xCC, CHR 0xCD, CHR 0xCE, CHR 0xCF,
      CHR 0xD0, CHR 0xD1, CHR 0xD2, CHR 0xD3, CHR 0xD4, CHR 0xD5, CHR 0xD6,
      CHR 0xD8, CHR 0xD9, CHR 0xDA, CHR 0xDB, CHR 0xDC, CHR 0xDD, CHR 0xDE]"

definition lower_letters :: "char list" where
  "lower_letters = ''abcdefghijklmnopqrstuvwxyz'' @
     [CHR 0xE0, CHR 0xE1, CHR 0xE2, CHR 0xE3, CHR 0xE4, CHR 0xE5, CHR 0xE6, CHR 0xE7,
      CHR 0xE8, CHR 0xE9, CHR 0xEA, CHR 0xEB, CHR 0xEC, CHR 0xED, CHR 0xEE, CHR 0xEF,
      CHR 0xF0, CHR 0xF1, CHR 0xF2, CHR 0xF3, CHR 0xF4, CHR 0xF5, CHR 0xF6,
      CHR 0xF8, CHR 0xF9, CHR 0xFA, CHR 0xFB, CHR 0xFC, CHR 0xFD, CHR 0xFE]"

definition lower_char :: "char \<Rightarrow> char" where
  "lower_char c = (case map_of (zip upper_letters lower_letters) c of Some d \<Rightarrow> d | None \<Rightarrow> c)"

definition toLowerCase :: "string \<Rightarrow> string" where
  "toLowerCase s = map lower_char s"

text \<open>\<^verbatim>\<open>s.includes(q)\<close>: \<open>q\<close> occurs in \<open>s\<close> as a contiguous run.\<close>

fun includes_str :: "string \<Rightarrow> string \<Rightarrow> bool" where
  "includes_str [] q = (q = [])"
| "includes_str (c # s) q = (prefix q (c # s) \<or> includes_str s q)"

text \<open>
  The counters of the application are integers far below \<open>2\<^sup>5\<^sup>3\<close>, where every integer
  is a Number and \<^verbatim>\<open>String(n)\<close> is the decimal digits of \<open>n\<close>. \<^verbatim>\<open>parseInt(s, 10)\<close> skips
  leading white space, reads a sign and the longest run of digits, and is \<^verbatim>\<open>NaN\<close>
  (here \<open>None\<close>) when there is no digit.
\<close>

definition is_digit :: "char \<Rightarrow> bool" where
  "is_digit c = (c \<in> set ''0123456789'')"

definition digit_char :: "nat \<Rightarrow> char" where
  "digit_char d = ''0123456789'' ! d"

definition digit_val :: "char \<Rightarrow> nat" where
  "digit_val c =
     (case map_of (zip ''0123456789'' [0, 1, 2, 3, 4, 5, 6, 7, 8, 9]) c of
        Some d \<Rightarrow> d | None \<Rightarrow> 0)"

function show_nat :: "nat \<Rightarrow> string" where
  "show_nat n = (if n < 10 then [digit_char n] else show_nat (n div 10) @ [digit_char (n mod 10)])"
  by pat_completeness auto

termination
  by (relation "measure id") auto

declare show_nat.simps [simp del]

definition show_int :: "int \<Rightarrow> string" where
  "show_int i = (if i < 0 then CHR ''-'' # show_nat (nat (- i)) else show_nat (nat i))"

definition digits_val :: "string \<Rightarrow> nat" where
  "digits_val ds = foldl (\<lambda>a c. 10 * a + digit_val c) 0 ds"

definition parseInt10 :: "string \<Rightarrow> int option" where
  "parseInt10 s =
     (let t = dropWhile is_ws s;
          neg = (t \<noteq> [] \<and> hd t = CHR ''-'');
          u = (if t \<noteq> [] \<and> (hd t = CHR ''-'' \<or> hd t = CHR ''+'') then tl t else t);
          ds = takeWhile is_digit u
      in if ds = [] then None
         else Some (if neg then - int (digits_val ds) else int (digits_val ds)))"

subsection \<open>Numbers of the host language\<close>

text \<open>
  A Number is a binary64 floating-point value, \<^verbatim>\<open>NaN\<close> or an infinity. A finite value
  is the rational it stands for; the two zeros are one value, \<open>Fin 0\<close> (no function of
  this development tells them apart).
\<close>

datatype jsnum = Fin rat | NaN | PosInf | NegInf

text \<open>
  The exponent of a positive rational to the base \<open>b\<close>: \<open>exp_down b n a\<close> divides
  \<open>a \<ge> 1\<close> by \<open>b\<close> until it is below \<open>b\<close>, at most \<open>n\<close> times, and \<open>exp_up b n a\<close>
  multiplies \<open>a < 1\<close> by \<open>b\<close> until it is at least \<open>1\<close>, at most \<open>n\<close> times. The binary
  exponent of a binary64 value lies between \<open>-1022\<close> (also for the subnormal values
  below \<open>2\<^sup>-\<^sup>1\<^sup>0\<^sup>2\<^sup>2\<close>) and \<open>1023\<close>.
\<close>

fun exp_down :: "rat \<Rightarrow> nat \<Rightarrow> rat \<Rightarrow> int" where
  "exp_down b n a = (if n = 0 \<or> a < b then 0 else 1 + exp_down b (n - 1) (a / b))"

fun exp_up :: "rat \<Rightarrow> nat \<Rightarrow> rat \<Rightarrow> int" where
  "exp_up b n a = (if n = 0 \<or> 1 \<le> a then 0 else exp_up b (n - 1) (a * b) - 1)"

declare exp_down.simps [simp del] exp_up.simps [simp del]

definition binary_exponent :: "rat \<Rightarrow> int" where
  "binary_exponent a = (if 1 \<le> a then exp_down 2 1024 a else exp_up 2 1022 a)"

text \<open>Rounding to the nearest integer, and to the even one of two that are equally near.\<close>

definition round_even :: "rat \<Rightarrow> int" where
  "round_even q =
     (let f = \<lfloor>q\<rfloor>; d = q - of_int f
      in if d < 1 / 2 then f else if 1 / 2 < d then f + 1 else if even f then f else f + 1)"

text \<open>
  The binary64 values around a positive \<open>a\<close> are the multiples of \<open>ulp_of a\<close>, and
  \<open>nearest a\<close> is the nearest of them. \<open>number_for r\<close> is "the Number value for \<open>r\<close>"
  of the language specification: the nearest binary64 value, the one with the even
  significand of two that are equally near, and an infinity when that value would be
  \<open>2\<^sup>1\<^sup>0\<^sup>2\<^sup>4\<close> or more.
\<close>

definition ulp_of :: "rat \<Rightarrow> rat" where
  "ulp_of a = 2 powi (binary_exponent a - 52)"

definition nearest :: "rat \<Rightarrow> rat" where
  "nearest a = of_int (round_even (a / ulp_of a)) * ulp_of a"

definition number_for :: "rat \<Rightarrow> jsnum" where
  "number_for r =
     (if r = 0 then Fin 0
      else if 2 ^ 1024 \<le> nearest \<bar>r\<bar> then (if 0 < r then PosInf else NegInf)
      else Fin (if 0 < r then nearest \<bar>r\<bar> else - nearest \<bar>r\<bar>))"

text \<open>
  Every operation reads its operands as Numbers: \<open>Fin r\<close> with an \<open>r\<close> that is not a
  binary64 value is read as the Number value for \<open>r\<close>, the way a decimal literal is
  (\<open>Fin (1 / 10)\<close> is what \<^verbatim>\<open>0.1\<close> is in a program).
\<close>

fun the_number :: "jsnum \<Rightarrow> jsnum" where
  "the_number (Fin r) = number_for r"
| "the_number n = n"

text \<open>\<^verbatim>\<open>a + b\<close>, \<^verbatim>\<open>a * b\<close> and \<^verbatim>\<open>a / b\<close> on Numbers, and \<^verbatim>\<open>Math.round\<close> (a half rounds up).\<close>

definition num_add :: "jsnum \<Rightarrow> jsnum \<Rightarrow> jsnum" where
  "num_add a b =
     (case (the_number a, the_number b) of
        (NaN, y) \<Rightarrow> NaN
      | (x, NaN) \<Rightarrow> NaN
      | (Fin x, Fin y) \<Rightarrow> number_for (x + y)
      | (PosInf, NegInf) \<Rightarrow> NaN
      | (NegInf, PosInf) \<Rightarrow> NaN
      | (PosInf, y) \<Rightarrow> PosInf
      | (NegInf, y) \<Rightarrow> NegInf
      | (Fin x, y) \<Rightarrow> y)"

definition num_mul :: "jsnum \<Rightarrow> jsnum \<Rightarrow> jsnum" where
  "num_mul a b =
     (case (the_number a, the_number b) of
        (NaN, y) \<Rightarrow> NaN
      | (x, NaN) \<Rightarrow> NaN
      | (Fin x, Fin y) \<Rightarrow> number_for (x * y)
      | (Fin x, PosInf) \<Rightarrow> (if x = 0 then NaN else if 0 < x then PosInf else NegInf)
      | (Fin x, NegInf) \<Rightarrow> (if x = 0 then NaN else if 0 < x then NegInf else PosInf)
      | (PosInf, Fin y) \<Rightarrow> (if y = 0 then NaN else if 0 < y then PosInf else NegInf)
      | (NegInf, Fin y) \<Rightarrow> (if y = 0 then NaN else if 0 < y then NegInf else PosInf)
      | (PosInf, PosInf) \<Rightarrow> PosInf
      | (NegInf, NegInf) \<Rightarrow> PosInf
      | (PosInf, NegInf) \<Rightarrow> NegInf
      | (NegInf, PosInf) \<Rightarrow> NegInf)"

definition num_div :: "jsnum \<Rightarrow> jsnum \<Rightarrow> jsnum" where
  "num_div a b =
     (case (the_number a, the_number b) of
        (NaN, y) \<Rightarrow> NaN
      | (x, NaN) \<Rightarrow> NaN
      | (Fin x, Fin y) \<Rightarrow>
          (if y = 0 then (if x = 0 then NaN else if 0 < x then PosInf else NegInf)
           else number_for (x / y))
      | (Fin x, y) \<Rightarrow> Fin 0
      | (PosInf, Fin y) \<Rightarrow> (if 0 \<le> y then PosInf else NegInf)
      | (NegInf, Fin y) \<Rightarrow> (if 0 \<le> y then NegInf else PosInf)
      | (x, y) \<Rightarrow> NaN)"

definition Math_round :: "jsnum \<Rightarrow> jsnum" where
  "Math_round n = (case the_number n of Fin x \<Rightarrow> Fin (of_int \<lfloor>x + 1 / 2\<rfloor>) | m \<Rightarrow> m)"

text \<open>
  \<^verbatim>\<open>String(x)\<close> of a finite Number \<open>x > 0\<close> (\<^verbatim>\<open>Number::toString\<close>). With
  \<open>10\<^sup>n\<^sup>-\<^sup>1 \<le> x < 10\<^sup>n\<close>, the digits are those of the integer \<open>s\<close> with the fewest
  digits \<open>k\<close> for which the Number value for \<open>s \<times> 10\<^sup>n\<^sup>-\<^sup>k\<close> is \<open>x\<close>; of two such \<open>s\<close>
  with \<open>k\<close> digits it is the one for which \<open>s \<times> 10\<^sup>n\<^sup>-\<^sup>k\<close> is nearer to \<open>x\<close>, and the even
  one when both are equally near. No binary64 value needs more than 17 digits.
  \<open>layout\<close> writes digits and exponent the way the language does: plain digits up to
  \<open>10\<^sup>2\<^sup>1\<close>, a leading \<open>0.\<close> down to \<open>10\<^sup>-\<^sup>6\<close>, and an exponent part beyond.
\<close>

definition decimal_exponent :: "rat \<Rightarrow> int" where
  "decimal_exponent a = (if 1 \<le> a then exp_down 10 400 a else exp_up 10 400 a)"

definition digits_at :: "rat \<Rightarrow> int \<Rightarrow> nat \<Rightarrow> nat option" where
  "digits_at x n k =
     (let scale = 10 powi (n - int k);
          lo = \<lfloor>x / scale\<rfloor>;
          hi = lo + 1;
          lo_ok = (number_for (of_int lo * scale) = Fin x);
          hi_ok = (number_for (of_int hi * scale) = Fin x);
          d_lo = x / scale - of_int lo;
          d_hi = of_int hi - x / scale
      in if lo_ok \<and> hi_ok then
           Some (nat (if d_lo < d_hi then lo else if d_hi < d_lo then hi
                      else if even lo then lo else hi))
         else if lo_ok then Some (nat lo)
         else if hi_ok then Some (nat hi)
         else None)"

fun shortest_digits :: "rat \<Rightarrow> int \<Rightarrow> nat list \<Rightarrow> nat \<times> nat" where
  "shortest_digits x n [] = (nat \<lfloor>x / 10 powi (n - 17)\<rfloor>, 17)"
| "shortest_digits x n (k # ks) =
     (case digits_at x n k of Some s \<Rightarrow> (s, k) | None \<Rightarrow> shortest_digits x n ks)"

definition exponent_str :: "int \<Rightarrow> string" where
  "exponent_str e =
     (if e < 0 then CHR ''-'' # show_nat (nat (- e)) else CHR ''+'' # show_nat (nat e))"

definition layout :: "string \<Rightarrow> int \<Rightarrow> string" where
  "layout ds n =
     (let k = int (length ds)
      in if k \<le> n \<and> n \<le> 21 then ds @ replicate (nat (n - k)) CHR ''0''
         else if 0 < n \<and> n \<le> 21 then take (nat n) ds @ CHR ''.'' # drop (nat n) ds
         else if - 6 < n \<and> n \<le> 0 then ''0.'' @ replicate (nat (- n)) CHR ''0'' @ ds
         else if k = 1 then ds @ CHR ''e'' # exponent_str (n - 1)
         else hd ds # CHR ''.'' # tl ds @ CHR ''e'' # exponent_str (n - 1))"

definition positive_str :: "rat \<Rightarrow> string" where
  "positive_str x =
     (let n = decimal_exponent x + 1;
          (s, k) = shortest_digits x n [1 ..< 18]
      in if s = 10 ^ k then layout ''1'' (n + 1) else layout (show_nat s) n)"

definition num_str :: "jsnum \<Rightarrow> string" where
  "num_str n =
     (case the_number n of
        NaN \<Rightarrow> ''NaN''
      | PosInf \<Rightarrow> ''Infinity''
      | NegInf \<Rightarrow> ''-Infinity''
      | Fin x \<Rightarrow> (if x = 0 then ''0'' else if x < 0 then CHR ''-'' # positive_str (- x)
                   else positive_str x))"

subsection \<open>Basket manager\<close>

text \<open>
  The in-memory basket of the application glue code (\<^verbatim>\<open>let basket = []\<close>) and the
  functions that mutate it. Menu items reach the basket from \<^verbatim>\<open>getMenu\<close>, which keeps
  only records with a string or number id, a string name and a finite price, so the
  lines are typed records here. A price is the finite Number \<open>Fin\<close> of the field; a
  quantity is an integer Number; ids that are numbers are integers, as in the bundled
  catalog. \<^verbatim>\<open>===\<close> on ids is equality of \<open>item_key\<close>: the number
  \<open>1\<close> and the string \<open>"1"\<close> are different ids.
\<close>

datatype item_key = IdNum int | IdStr string

record menu_item =
  mi_id :: item_key
  mi_name :: string
  mi_price :: rat
  mi_category :: string
  mi_favorite :: bool
  mi_hidden :: bool

text \<open>A basket line is \<^verbatim>\<open>{...item, quantity, note}\<close>: the item's fields and two more.\<close>

record basket_line =
  bl_id :: item_key
  bl_name :: string
  bl_price :: rat
  bl_category :: string
  bl_favorite :: bool
  bl_hidden :: bool
  bl_quantity :: int
  bl_note :: string

type_synonym basket = "basket_line list"

text \<open>\<^verbatim>\<open>q || 1\<close> on a number: zero is falsy.\<close>

definition or_one :: "int \<Rightarrow> int" where
  "or_one q = (if q = 0 then 1 else q)"

text \<open>\<^verbatim>\<open>{...item, quantity: q, note: n}\<close>\<close>

definition spread_line :: "menu_item \<Rightarrow> int \<Rightarrow> string \<Rightarrow> basket_line" where
  "spread_line item q n =
     \<lparr>bl_id = mi_id item, bl_name = mi_name item, bl_price = mi_price item,
      bl_category = mi_category item, bl_favorite = mi_favorite item,
      bl_hidden = mi_hidden item, bl_quantity = q, bl_note = n\<rparr>"

text \<open>
  \<^verbatim>\<open>const x = basket.find(p); if (x) { x.f = ... }\<close> mutates the first element that
  satisfies \<open>p\<close> in place and leaves the array otherwise as it is.
\<close>

fun modify_first :: "('a \<Rightarrow> bool) \<Rightarrow> ('a \<Rightarrow> 'a) \<Rightarrow> 'a list \<Rightarrow> 'a list" where
  "modify_first p f [] = []"
| "modify_first p f (x # xs) = (if p x then f x # xs else x # modify_first p f xs)"

definition addToBasket :: "menu_item \<Rightarrow> basket \<Rightarrow> basket" where
  "addToBasket item b =
     (case find (\<lambda>l. bl_id l = mi_id item) b of
        Some existingItem \<Rightarrow>
          modify_first (\<lambda>l. bl_id l = mi_id item)
            (\<lambda>l. l\<lparr>bl_quantity := or_one (bl_quantity l) + 1\<rparr>) b
      | None \<Rightarrow> b @ [spread_line item 1 []])"

definition removeBasketItem :: "item_key \<Rightarrow> basket \<Rightarrow> basket" where
  "removeBasketItem itemId b = filter (\<lambda>l. bl_id l \<noteq> itemId) b"

definition updateBasketItemQuantity :: "item_key \<Rightarrow> int \<Rightarrow> basket \<Rightarrow> basket" where
  "updateBasketItemQuantity itemId quantity b =
     (case find (\<lambda>l. bl_id l = itemId) b of
        Some item \<Rightarrow>
          if quantity \<le> 0 then removeBasketItem itemId b
          else modify_first (\<lambda>l. bl_id l = itemId) (\<lambda>l. l\<lparr>bl_quantity := quantity\<rparr>) b
      | None \<Rightarrow> b)"

text \<open>The note comes from a text area, so it is a string and \<^verbatim>\<open>note || ''\<close> is the note.\<close>

definition updateBasketItemNote :: "item_key \<Rightarrow> string \<Rightarrow> basket \<Rightarrow> basket" where
  "updateBasketItemNote itemId n b =
     (case find (\<lambda>l. bl_id l = itemId) b of
        Some item \<Rightarrow> modify_first (\<lambda>l. bl_id l = itemId) (\<lambda>l. l\<lparr>bl_note := n\<rparr>) b
      | None \<Rightarrow> b)"

definition clearBasket :: "basket \<Rightarrow> basket" where
  "clearBasket b = []"

text \<open>\<^verbatim>\<open>basket.reduce((sum, item) => sum + (item.price * (item.quantity || 1)), 0)\<close>\<close>

definition calculateBasketTotal :: "basket \<Rightarrow> jsnum" where
  "calculateBasketTotal b =
     foldl (\<lambda>sum item. num_add sum
              (num_mul (Fin (bl_price item)) (Fin (of_int (or_one (bl_quantity item))))))
       (Fin 0) b"

text \<open>The items of an order, as \<^verbatim>\<open>createOrder\<close> snapshots them.\<close>

record order_item =
  oi_id :: item_key
  oi_name :: string
  oi_price :: rat
  oi_quantity :: int
  oi_note :: string

text \<open>
  The sum of price times quantity over the items of an order as the language computes
  it: the products are added to \<open>0\<close> one after the other, from the first item on, and
  every product and every sum is rounded to a Number.
\<close>

definition items_total :: "order_item list \<Rightarrow> jsnum" where
  "items_total its =
     foldl (\<lambda>sum i. num_add sum (num_mul (Fin (oi_price i)) (Fin (of_int (oi_quantity i)))))
       (Fin 0) its"

text \<open>
  \<^verbatim>\<open>quickReorder\<close> copies the items of an order that are still on the menu into the
  basket, one after the other.
\<close>

definition reorder_item :: "menu_item list \<Rightarrow> order_item \<Rightarrow> basket \<Rightarrow> basket" where
  "reorder_item menu orderItem b =
     (case find (\<lambda>m. mi_id m = oi_id orderItem) menu of
        None \<Rightarrow> b
      | Some menuItem \<Rightarrow>
          (case find (\<lambda>l. bl_id l = mi_id menuItem) b of
             Some existingItem \<Rightarrow>
               modify_first (\<lambda>l. bl_id l = mi_id menuItem)
                 (\<lambda>l. l\<lparr>bl_quantity := or_one (bl_quantity l) + or_one (oi_quantity orderItem),
                        bl_note := (if oi_note orderItem \<noteq> [] \<and> bl_note l = []
                                    then oi_note orderItem else bl_note l)\<rparr>) b
           | None \<Rightarrow>
               b @ [spread_line menuItem (or_one (oi_quantity orderItem)) (oi_note orderItem)]))"

definition quickReorder :: "menu_item list \<Rightarrow> order_item list \<Rightarrow> basket \<Rightarrow> basket" where
  "quickReorder menu its b = foldl (\<lambda>b' orderItem. reorder_item menu orderItem b') b its"

text \<open>Every way the application changes the basket, as one step of a run.\<close>

datatype basket_op =
    Add menu_item
  | SetQuantity item_key int
  | Remove item_key
  | SetNote item_key string
  | Clear
  | Reorder "menu_item list" "order_item list"

fun basket_step :: "basket \<Rightarrow> basket_op \<Rightarrow> basket" where
  "basket_step b (Add item) = addToBasket item b"
| "basket_step b (SetQuantity k q) = updateBasketItemQuantity k q b"
| "basket_step b (Remove k) = removeBasketItem k b"
| "basket_step b (SetNote k n) = updateBasketItemNote k n b"
| "basket_step b Clear = clearBasket b"
| "basket_step b (Reorder menu its) = quickReorder menu its b"

definition basket_run :: "basket_op list \<Rightarrow> basket \<Rightarrow> basket" where
  "basket_run ops b = foldl basket_step b ops"

definition add_all :: "menu_item list \<Rightarrow> basket \<Rightarrow> basket" where
  "add_all items b = foldl (\<lambda>b' item. addToBasket item b') b items"

definition lines_of :: "item_key \<Rightarrow> basket \<Rightarrow> basket" where
  "lines_of k b = filter (\<lambda>l. bl_id l = k) b"

definition steam_momos :: menu_item where
  "steam_momos = \<lparr>mi_id = IdNum 1, mi_name = ''Steam Momos'', mi_price = 80,
     mi_category = ''Momos'', mi_favorite = False, mi_hidden = False\<rparr>"

definition veg_hakka_noodles :: menu_item where
  "veg_hakka_noodles = \<lparr>mi_id = IdNum 5, mi_name = ''Veg Hakka Noodles'', mi_price = 120,
     mi_category = ''Noodles'', mi_favorite = False, mi_hidden = False\<rparr>"

subsection \<open>Orders\<close>

text \<open>
  An order as \<^verbatim>\<open>createOrder\<close> builds it. \<open>ord_orderNumber\<close> is \<open>None\<close> when the counter
  in \<^verbatim>\<open>localStorage\<close> does not parse (\<^verbatim>\<open>parseInt\<close> gives \<^verbatim>\<open>NaN\<close>).
\<close>

record order =
  ord_id :: string
  ord_timestamp :: string
  ord_items :: "order_item list"
  ord_total :: jsnum
  ord_status :: string
  ord_orderNumber :: "int option"

definition fried_rice_order :: order where
  "fried_rice_order = \<lparr>ord_id = ''ord-abc123'', ord_timestamp = ''2024-01-01T10:00:00.000Z'',
     ord_items = [\<lparr>oi_id = IdNum 9, oi_name = ''Veg Fried Rice'', oi_price = 110,
                   oi_quantity = 1, oi_note = []\<rparr>],
     ord_total = Fin 110, ord_status = ''Yet to prepare'', ord_orderNumber = None\<rparr>"

subsection \<open>Values of the host language, validation and sanitization\<close>

text \<open>
  A value is what \<^verbatim>\<open>JSON.parse\<close> or an object literal of the application gives; the
  fields of an object are an association list. None of these values holds a function.
\<close>

datatype jsval =
    JUndefined
  | JNull
  | JBool bool
  | JNum jsnum
  | JStr string
  | JArr "jsval list"
  | JObj "(string \<times> jsval) list"

text \<open>\<^verbatim>\<open>Boolean(v)\<close>, and \<^verbatim>\<open>a || b\<close>.\<close>

fun truthy :: "jsval \<Rightarrow> bool" where
  "truthy JUndefined = False"
| "truthy JNull = False"
| "truthy (JBool b) = b"
| "truthy (JNum n) = (n \<noteq> NaN \<and> n \<noteq> Fin 0)"
| "truthy (JStr s) = (s \<noteq> [])"
| "truthy (JArr xs) = True"
| "truthy (JObj fs) = True"

definition js_or :: "jsval \<Rightarrow> jsval \<Rightarrow> jsval" where
  "js_or a b = (if truthy a then a else b)"

text \<open>
  \<^verbatim>\<open>v.k\<close> for the property names the application reads (none of them is inherited): the
  field of an object, and \<^verbatim>\<open>undefined\<close> on an array or a primitive.
\<close>

definition jprop :: "jsval \<Rightarrow> string \<Rightarrow> jsval" where
  "jprop v k =
     (case v of
        JObj fs \<Rightarrow> (case map_of fs k of Some x \<Rightarrow> x | None \<Rightarrow> JUndefined)
      | _ \<Rightarrow> JUndefined)"

text \<open>
  \<^verbatim>\<open>String(v)\<close>. An array joins the strings of its elements with commas, with nothing
  for \<^verbatim>\<open>null\<close> and \<^verbatim>\<open>undefined\<close>. An object prints as \<open>[object Object]\<close>, unless it has a
  property \<^verbatim>\<open>toString\<close> of its own: that property hides the inherited method, it is not
  a function, and the conversion throws a \<^verbatim>\<open>TypeError\<close>, which is \<open>None\<close> here.
\<close>

fun join_comma :: "string list \<Rightarrow> string" where
  "join_comma [] = []"
| "join_comma [s] = s"
| "join_comma (s # t # ss) = s @ '','' @ join_comma (t # ss)"

fun ToString :: "jsval \<Rightarrow> string option" where
  "ToString JUndefined = Some ''undefined''"
| "ToString JNull = Some ''null''"
| "ToString (JBool b) = Some (if b then ''true'' else ''false'')"
| "ToString (JNum n) = Some (num_str n)"
| "ToString (JStr s) = Some s"
| "ToString (JArr xs) =
     map_option join_comma
       (those (map (\<lambda>x. if x = JUndefined \<or> x = JNull then Some [] else ToString x) xs))"
| "ToString (JObj fs) = (if map_of fs ''toString'' = None then Some ''[object Object]'' else None)"

text \<open>
  \<^verbatim>\<open>parseFloat\<close> converts its argument to a string, skips leading white space and reads
  the longest prefix that is a decimal literal (sign, digits, fraction, exponent) or
  \<^verbatim>\<open>Infinity\<close>; it is \<^verbatim>\<open>NaN\<close> when there is none, and the Number value for the decimal
  that the literal denotes otherwise. A Number goes through \<^verbatim>\<open>String\<close> and back
  unchanged, so \<^verbatim>\<open>parseFloat\<close> of a Number is that Number; the conversion of another
  argument to a string can throw.
\<close>

definition exponent_of :: "string \<Rightarrow> int" where
  "exponent_of s =
     (if s \<noteq> [] \<and> (hd s = CHR ''e'' \<or> hd s = CHR ''E'') then
        (let t = tl s;
             neg = (t \<noteq> [] \<and> hd t = CHR ''-'');
             u = (if t \<noteq> [] \<and> (hd t = CHR ''-'' \<or> hd t = CHR ''+'') then tl t else t);
             ds = takeWhile is_digit u
         in if ds = [] then 0 else if neg then - int (digits_val ds) else int (digits_val ds))
      else 0)"

definition scale10 :: "rat \<Rightarrow> int \<Rightarrow> rat" where
  "scale10 m e = (if 0 \<le> e then m * 10 ^ nat e else m / 10 ^ nat (- e))"

definition parseFloat_str :: "string \<Rightarrow> jsnum" where
  "parseFloat_str s =
     (let t = dropWhile is_ws s;
          neg = (t \<noteq> [] \<and> hd t = CHR ''-'');
          u = (if t \<noteq> [] \<and> (hd t = CHR ''-'' \<or> hd t = CHR ''+'') then tl t else t)
      in if prefix ''Infinity'' u then (if neg then NegInf else PosInf)
         else
           (let ip = takeWhile is_digit u;
                r1 = dropWhile is_digit u;
                dot = (r1 \<noteq> [] \<and> hd r1 = CHR ''.'');
                fp = (if dot then takeWhile is_digit (tl r1) else []);
                r2 = (if dot then dropWhile is_digit (tl r1) else r1)
            in if ip = [] \<and> fp = [] then NaN
               else
                 (let m = of_nat (digits_val ip) + of_nat (digits_val fp) / 10 ^ length fp;
                      v = scale10 m (exponent_of r2)
                  in number_for (if neg then - v else v))))"

definition parseFloat :: "jsval \<Rightarrow> jsnum option" where
  "parseFloat v =
     (case v of JNum n \<Rightarrow> Some (the_number n) | _ \<Rightarrow> map_option parseFloat_str (ToString v))"

text \<open>\<^verbatim>\<open>typeof v === 'object'\<close>, \<^verbatim>\<open>Array.isArray(v)\<close> and \<^verbatim>\<open>typeof v === 'string'\<close>.\<close>

definition is_object :: "jsval \<Rightarrow> bool" where
  "is_object v = (case v of JNull \<Rightarrow> True | JArr xs \<Rightarrow> True | JObj fs \<Rightarrow> True | _ \<Rightarrow> False)"

definition is_array :: "jsval \<Rightarrow> bool" where
  "is_array v = (case v of JArr xs \<Rightarrow> True | _ \<Rightarrow> False)"

definition is_string :: "jsval \<Rightarrow> bool" where
  "is_string v = (case v of JStr s \<Rightarrow> True | _ \<Rightarrow> False)"

text \<open>\<^verbatim>\<open>typeof v === 'number' && !isNaN(v) && isFinite(v)\<close>\<close>

definition is_finite_number :: "jsval \<Rightarrow> bool" where
  "is_finite_number v = (case v of JNum (Fin r) \<Rightarrow> True | _ \<Rightarrow> False)"

definition is_number :: "jsval \<Rightarrow> bool" where
  "is_number v = (case v of JNum n \<Rightarrow> True | _ \<Rightarrow> False)"

definition isValidMenuItem :: "jsval \<Rightarrow> bool" where
  "isValidMenuItem item \<longleftrightarrow>
     truthy item \<and> is_object item \<and>
     truthy (jprop item ''id'') \<and>
     (is_string (jprop item ''id'') \<or> is_number (jprop item ''id'')) \<and>
     truthy (jprop item ''name'') \<and> is_string (jprop item ''name'') \<and>
     is_finite_number (jprop item ''price'')"

definition isValidOrder :: "jsval \<Rightarrow> bool" where
  "isValidOrder order \<longleftrightarrow>
     truthy order \<and> is_object order \<and>
     truthy (jprop order ''id'') \<and> is_string (jprop order ''id'') \<and>
     truthy (jprop order ''timestamp'') \<and>
     is_object (jprop order ''items'') \<and> is_array (jprop order ''items'') \<and>
     is_finite_number (jprop order ''total'')"

text \<open>
  \<^verbatim>\<open>sanitizeMenuItem\<close> reads six properties of its argument, which is an object (the
  form data of the item editor); \<open>item\<close> is the list of the fields of that object. The
  result is the object literal that the function returns, whose fields are evaluated
  from the first to the last; it is \<open>None\<close> when one of the conversions to a string
  throws.
\<close>

record sanitized_item =
  s_id :: string
  s_name :: string
  s_price :: jsnum
  s_category :: string
  s_favorite :: bool
  s_hidden :: bool

definition sanitizeMenuItem :: "(string \<times> jsval) list \<Rightarrow> sanitized_item option" where
  "sanitizeMenuItem item =
     (case (if truthy (jprop (JObj item) ''id'')
            then map_option trim (ToString (jprop (JObj item) ''id'')) else Some []) of
        None \<Rightarrow> None
      | Some id_str \<Rightarrow>
     (case map_option trim (ToString (js_or (jprop (JObj item) ''name'') (JStr []))) of
        None \<Rightarrow> None
      | Some name \<Rightarrow>
     (case parseFloat (js_or (jprop (JObj item) ''price'') (JNum (Fin 0))) of
        None \<Rightarrow> None
      | Some parsed \<Rightarrow>
     (case map_option trim
             (ToString (js_or (jprop (JObj item) ''category'') (JStr ''Uncategorized''))) of
        None \<Rightarrow> None
      | Some category \<Rightarrow>
          Some \<lparr>s_id = id_str,
                s_name = name,
                s_price = num_div (Math_round (num_mul parsed (Fin 100))) (Fin 100),
                s_category = (if category \<noteq> [] then category else ''Uncategorized''),
                s_favorite = truthy (jprop (JObj item) ''favorite''),
                s_hidden = truthy (jprop (JObj item) ''hidden'')\<rparr>))))"

text \<open>
  The price that \<^verbatim>\<open>sanitizeMenuItem\<close> computes from a finite Number \<open>x\<close>:
  \<^verbatim>\<open>Math.round(x * 100) / 100\<close>, with the product and the quotient rounded to Numbers.
\<close>

definition cents :: "rat \<Rightarrow> jsnum" where
  "cents x = num_div (Math_round (num_mul (Fin x) (Fin 100))) (Fin 100)"

subsection \<open>Order search\<close>

text \<open>
  The orders that \<^verbatim>\<open>filterOrders\<close> searches come from the store, where an import can
  put any record that passes \<open>isValidOrder\<close>; so an order is a value here, and so is each
  of its items. Reading a property of \<^verbatim>\<open>null\<close> or \<^verbatim>\<open>undefined\<close>, and calling a method that
  the value does not have, throw a \<^verbatim>\<open>TypeError\<close>: \<open>None\<close> stands for the thrown error in
  this section.
\<close>

definition read_prop :: "jsval \<Rightarrow> string \<Rightarrow> jsval option" where
  "read_prop v k = (if v = JUndefined \<or> v = JNull then None else Some (jprop v k))"

text \<open>\<^verbatim>\<open>v.toLowerCase().includes(q)\<close>: only a string has the method \<^verbatim>\<open>toLowerCase\<close>.\<close>

definition lower_includes :: "jsval \<Rightarrow> string \<Rightarrow> bool option" where
  "lower_includes v q =
     (case v of JStr s \<Rightarrow> Some (includes_str (toLowerCase s) q) | _ \<Rightarrow> None)"

text \<open>\<^verbatim>\<open>s.padStart(4, '0')\<close>\<close>

definition padStart4 :: "string \<Rightarrow> string" where
  "padStart4 s = replicate (4 - length s) CHR ''0'' @ s"

text \<open>
  \<^verbatim>\<open>items.some(item => item.name.toLowerCase().includes(q))\<close> goes through the items and
  stops at the first one that matches.
\<close>

fun some_name :: "string \<Rightarrow> jsval list \<Rightarrow> bool option" where
  "some_name q [] = Some False"
| "some_name q (item # items) =
     (case read_prop item ''name'' of
        None \<Rightarrow> None
      | Some name \<Rightarrow>
          (case lower_includes name q of
             None \<Rightarrow> None
           | Some found \<Rightarrow> if found then Some True else some_name q items))"

text \<open>The callback of \<^verbatim>\<open>orders.filter\<close> in \<^verbatim>\<open>filterOrders\<close>, with its three early returns.\<close>

definition order_matches :: "string \<Rightarrow> jsval \<Rightarrow> bool option" where
  "order_matches lowerQuery order =
     (case read_prop order ''id'' of
        None \<Rightarrow> None
      | Some order_id \<Rightarrow>
     (case lower_includes order_id lowerQuery of
        None \<Rightarrow> None
      | Some in_id \<Rightarrow>
          if in_id then Some True
          else
     (case (if truthy (jprop order ''orderNumber'')
            then map_option (\<lambda>s. includes_str (toLowerCase (padStart4 s)) lowerQuery)
                   (ToString (jprop order ''orderNumber''))
            else Some False) of
        None \<Rightarrow> None
      | Some in_number \<Rightarrow>
          if in_number then Some True
          else if truthy (jprop order ''items'') then
            (case jprop order ''items'' of
               JArr items \<Rightarrow> some_name lowerQuery items
             | _ \<Rightarrow> None)
          else Some False)))"

text \<open>\<^verbatim>\<open>orders.filter(p)\<close> with a callback that can throw: the first throw ends the call.\<close>

fun filter_throwing :: "('a \<Rightarrow> bool option) \<Rightarrow> 'a list \<Rightarrow> 'a list option" where
  "filter_throwing p [] = Some []"
| "filter_throwing p (x # xs) =
     (case p x of
        None \<Rightarrow> None
      | Some keep \<Rightarrow> map_option (\<lambda>ys. if keep then x # ys else ys) (filter_throwing p xs))"

definition filterOrders :: "jsval list \<Rightarrow> string \<Rightarrow> jsval list option" where
  "filterOrders orders query =
     (if query = [] \<or> trim query = [] then Some orders
      else filter_throwing (order_matches (trim (toLowerCase query))) orders)"

text \<open>
  The match in the words of the specification: the lowercased query occurs in the
  lowercased id, in the order number padded with zeros to four characters, or in the
  lowercased name of an item.
\<close>

definition claimed_match :: "string \<Rightarrow> jsval \<Rightarrow> bool" where
  "claimed_match query order \<longleftrightarrow>
     (\<exists>s. jprop order ''id'' = JStr s \<and> sublist (toLowerCase query) (toLowerCase s)) \<or>
     (\<exists>s. jprop order ''orderNumber'' \<noteq> JUndefined \<and>
          ToString (jprop order ''orderNumber'') = Some s \<and>
          sublist (toLowerCase query) (padStart4 s)) \<or>
     (\<exists>items. jprop order ''items'' = JArr items \<and>
        (\<exists>item \<in> set items. \<exists>s. jprop item ''name'' = JStr s \<and>
           sublist (toLowerCase query) (toLowerCase s)))"

text \<open>
  The match the code computes, for a query \<open>q\<close> that is already lowercased and trimmed:
  \<open>q\<close> occurs in the lowercased id, or in the lowercased string of the order number
  padded to four characters when the order has a number that is truthy (not \<open>0\<close>, not
  \<^verbatim>\<open>NaN\<close>, not empty), or in the lowercased name of an item.
\<close>

definition search_match :: "string \<Rightarrow> jsval \<Rightarrow> bool" where
  "search_match q order \<longleftrightarrow>
     (\<exists>s. jprop order ''id'' = JStr s \<and> sublist q (toLowerCase s)) \<or>
     (truthy (jprop order ''orderNumber'') \<and>
        (\<exists>s. ToString (jprop order ''orderNumber'') = Some s \<and>
             sublist q (toLowerCase (padStart4 s)))) \<or>
     (\<exists>items. jprop order ''items'' = JArr items \<and>
        (\<exists>item \<in> set items. \<exists>s. jprop item ''name'' = JStr s \<and> sublist q (toLowerCase s)))"

text \<open>
  An order that the search can read to the end: it is an object or another value with
  properties, its id is a string, its order number, if truthy, has a string, and its
  items, if truthy, are an array of values with properties whose names are strings.
  Every order that \<^verbatim>\<open>createOrder\<close> writes is of this kind.
\<close>

definition searchable :: "jsval \<Rightarrow> bool" where
  "searchable order \<longleftrightarrow>
     order \<noteq> JUndefined \<and> order \<noteq> JNull \<and> is_string (jprop order ''id'') \<and>
     (truthy (jprop order ''orderNumber'') \<longrightarrow> ToString (jprop order ''orderNumber'') \<noteq> None) \<and>
     (truthy (jprop order ''items'') \<longrightarrow>
        (case jprop order ''items'' of
           JArr items \<Rightarrow>
             list_all (\<lambda>item. item \<noteq> JUndefined \<and> item \<noteq> JNull \<and> is_string (jprop item ''name''))
               items
         | _ \<Rightarrow> False))"

text \<open>
  The order of the specification's example; an order, valid for the store, whose item
  has no name; and an order with an item whose name ends in a capital letter outside
  ASCII, \<open>U+00C9\<close>.
\<close>

definition spec_order :: jsval where
  "spec_order = JObj [(''id'', JStr ''ord-abc123''),
     (''items'', JArr [JObj [(''name'', JStr ''Veg Fried Rice'')]])]"

definition nameless_item_order :: jsval where
  "nameless_item_order = JObj [(''id'', JStr ''ord-x7''), (''timestamp'', JStr ''2024-01-01''),
     (''items'', JArr [JObj [(''price'', JNum (Fin 5))]]), (''total'', JNum (Fin 5))]"

definition cafe_order :: jsval where
  "cafe_order = JObj [(''id'', JStr ''ord-c1''),
     (''items'', JArr [JObj [(''name'', JStr (''CAF'' @ [CHR 0xC9]))]])]"

subsection \<open>Local datastore and persistent scalars\<close>

text \<open>
  An IndexedDB object store with the key path \<^verbatim>\<open>id\<close>: a key is a number other than
  \<^verbatim>\<open>NaN\<close> or a string (no caller stores a record whose id is a date or an array).
  Keys are ordered as IndexedDB orders them, numbers before strings, which \<open>key_rank\<close>
  maps into a lexicographic product; a store is the list of its records in ascending
  key order, which is the order \<^verbatim>\<open>getAll\<close> returns them in.
\<close>

datatype idb_key = KNum jsnum | KStr string

definition key_of_val :: "jsval \<Rightarrow> idb_key option" where
  "key_of_val v =
     (case v of
        JNum n \<Rightarrow> (if n = NaN then None else Some (KNum n))
      | JStr s \<Rightarrow> Some (KStr s)
      | _ \<Rightarrow> None)"

definition key_of :: "jsval \<Rightarrow> idb_key option" where
  "key_of record = key_of_val (jprop record ''id'')"

fun key_rank :: "idb_key \<Rightarrow> nat \<times> rat \<times> string" where
  "key_rank (KNum NegInf) = (0, 0, [])"
| "key_rank (KNum (Fin r)) = (1, r, [])"
| "key_rank (KNum PosInf) = (2, 0, [])"
| "key_rank (KNum NaN) = (3, 0, [])"
| "key_rank (KStr s) = (4, 0, s)"

definition key_lt :: "idb_key \<Rightarrow> idb_key \<Rightarrow> bool" where
  "key_lt a b = (key_rank a < key_rank b)"

type_synonym objstore = "(idb_key \<times> jsval) list"

fun store_put :: "idb_key \<Rightarrow> jsval \<Rightarrow> objstore \<Rightarrow> objstore" where
  "store_put k v [] = [(k, v)]"
| "store_put k v ((k', v') # s) =
     (if k = k' then (k, v) # s
      else if key_lt k k' then (k, v) # (k', v') # s
      else (k', v') # store_put k v s)"

text \<open>\<^verbatim>\<open>store.get(k)\<close> and \<^verbatim>\<open>store.getAll()\<close>.\<close>

definition store_get :: "idb_key \<Rightarrow> objstore \<Rightarrow> jsval option" where
  "store_get k s = map_of s k"

definition store_getAll :: "objstore \<Rightarrow> jsval list" where
  "store_getAll s = map snd s"

text \<open>
  What a rejected promise carries. \<open>StorageUnavailable\<close> is the error "Database not
  initialized"; \<open>DataError\<close> (a record without a valid key) and \<open>ConstraintError\<close>
  (\<^verbatim>\<open>add\<close> of a key that is present) are the failures of a write, which the wrappers
  report as storage errors; \<open>OrderNotFound\<close> is "Order not found"; \<open>InvalidBackup\<close> is
  an error whose message starts "Invalid backup file".
\<close>

datatype error =
    StorageUnavailable
  | DataError
  | ConstraintError
  | OrderNotFound
  | InvalidBackup

text \<open>\<^verbatim>\<open>store.put(record)\<close> and \<^verbatim>\<open>store.add(record)\<close>.\<close>

definition put_record :: "jsval \<Rightarrow> objstore \<Rightarrow> error + objstore" where
  "put_record record s =
     (case key_of record of
        None \<Rightarrow> Inl DataError
      | Some k \<Rightarrow> Inr (store_put k record s))"

definition add_record :: "jsval \<Rightarrow> objstore \<Rightarrow> error + objstore" where
  "add_record record s =
     (case key_of record of
        None \<Rightarrow> Inl DataError
      | Some k \<Rightarrow> if store_get k s \<noteq> None then Inl ConstraintError
                  else Inr (store_put k record s))"

text \<open>
  The state of the application: the database handle (\<^verbatim>\<open>db\<close> is \<^verbatim>\<open>null\<close> until
  \<^verbatim>\<open>initDB\<close> has run), the three object stores, \<^verbatim>\<open>localStorage\<close> and the basket.
\<close>

record app_state =
  st_db :: bool
  st_menu :: objstore
  st_orders :: objstore
  st_archive :: objstore
  st_local :: "string \<Rightarrow> string option"
  st_basket :: basket

text \<open>\<^verbatim>\<open>localStorage.k || d\<close>: a missing key and the empty string are falsy.\<close>

definition local_or :: "(string \<Rightarrow> string option) \<Rightarrow> string \<Rightarrow> string \<Rightarrow> string" where
  "local_or ls k d = (case ls k of None \<Rightarrow> d | Some s \<Rightarrow> if s = [] then d else s)"

text \<open>\<^verbatim>\<open>String(n)\<close> of the result of \<^verbatim>\<open>parseInt\<close> (\<open>None\<close> is \<^verbatim>\<open>NaN\<close>).\<close>

definition int_str :: "int option \<Rightarrow> string" where
  "int_str n = (case n of None \<Rightarrow> ''NaN'' | Some i \<Rightarrow> show_int i)"

text \<open>The usage counter of an item lives under the key \<^verbatim>\<open>`item_usage_${itemId}`\<close>.\<close>

fun key_text :: "item_key \<Rightarrow> string" where
  "key_text (IdNum n) = show_int n"
| "key_text (IdStr s) = s"

definition usage_key :: "item_key \<Rightarrow> string" where
  "usage_key itemId = ''item_usage_'' @ key_text itemId"

definition getItemUsageCount :: "item_key \<Rightarrow> (string \<Rightarrow> string option) \<Rightarrow> int option" where
  "getItemUsageCount itemId ls = parseInt10 (local_or ls (usage_key itemId) ''0'')"

definition incrementItemUsage ::
    "item_key \<Rightarrow> (string \<Rightarrow> string option) \<Rightarrow> (string \<Rightarrow> string option)" where
  "incrementItemUsage itemId ls =
     ls(usage_key itemId \<mapsto> int_str (map_option (\<lambda>current. current + 1) (getItemUsageCount itemId ls)))"

text \<open>
  \<^verbatim>\<open>for (let i = 0; i < (item.quantity || 1); i++) incrementItemUsage(item.id)\<close>, and
  the \<^verbatim>\<open>forEach\<close> over the basket around it.
\<close>

definition count_line :: "basket_line \<Rightarrow> (string \<Rightarrow> string option) \<Rightarrow> (string \<Rightarrow> string option)" where
  "count_line item ls = (incrementItemUsage (bl_id item) ^^ nat (or_one (bl_quantity item))) ls"

definition count_basket :: "basket \<Rightarrow> (string \<Rightarrow> string option) \<Rightarrow> (string \<Rightarrow> string option)" where
  "count_basket b ls = foldl (\<lambda>ls' item. count_line item ls') ls b"

subsection \<open>Order creation\<close>

text \<open>The object literal that \<^verbatim>\<open>createOrder\<close> maps every basket line to.\<close>

definition snapshot :: "basket_line \<Rightarrow> order_item" where
  "snapshot item = \<lparr>oi_id = bl_id item, oi_name = bl_name item, oi_price = bl_price item,
     oi_quantity = or_one (bl_quantity item), oi_note = bl_note item\<rparr>"

text \<open>The typed order as the object that is written to the store.\<close>

fun item_key_json :: "item_key \<Rightarrow> jsval" where
  "item_key_json (IdNum n) = JNum (Fin (of_int n))"
| "item_key_json (IdStr s) = JStr s"

definition order_item_json :: "order_item \<Rightarrow> jsval" where
  "order_item_json i = JObj [(''id'', item_key_json (oi_id i)), (''name'', JStr (oi_name i)),
     (''price'', JNum (Fin (oi_price i))), (''quantity'', JNum (Fin (of_int (oi_quantity i)))),
     (''note'', JStr (oi_note i))]"

definition order_json :: "order \<Rightarrow> jsval" where
  "order_json order = JObj [(''id'', JStr (ord_id order)),
     (''timestamp'', JStr (ord_timestamp order)),
     (''items'', JArr (map order_item_json (ord_items order))),
     (''total'', JNum (ord_total order)),
     (''status'', JStr (ord_status order)),
     (''orderNumber'', JNum (case ord_orderNumber order of None \<Rightarrow> NaN | Some n \<Rightarrow> Fin (of_int n)))]"

definition saveOrder :: "jsval \<Rightarrow> app_state \<Rightarrow> error + app_state" where
  "saveOrder order st =
     (if \<not> st_db st then Inl StorageUnavailable
      else case add_record order (st_orders st) of
             Inl e \<Rightarrow> Inl e
           | Inr s \<Rightarrow> Inr (st\<lparr>st_orders := s\<rparr>))"

text \<open>
  \<^verbatim>\<open>createOrder\<close> reports through \<^verbatim>\<open>alert\<close>: "Basket is empty" (\<open>EmptyBasketError\<close>),
  "Order created successfully!" (\<open>Created\<close>) or "Failed to create order" (the \<^verbatim>\<open>catch\<close>
  branch). \<open>rnd\<close> is the suffix that \<^verbatim>\<open>generateId\<close> draws and \<open>now\<close> the time stamp.
\<close>

datatype create_outcome = Created order | EmptyBasketError | CreateFailed error

definition new_order :: "string \<Rightarrow> string \<Rightarrow> int option \<Rightarrow> basket \<Rightarrow> order" where
  "new_order rnd now nextOrderNumber b =
     \<lparr>ord_id = ''ord-'' @ rnd, ord_timestamp = now,
      ord_items = map snapshot b,
      ord_total = calculateBasketTotal b,
      ord_status = ''Yet to prepare'',
      ord_orderNumber = nextOrderNumber\<rparr>"

definition createOrder :: "string \<Rightarrow> string \<Rightarrow> app_state \<Rightarrow> create_outcome \<times> app_state" where
  "createOrder rnd now st =
     (if st_basket st = [] then (EmptyBasketError, st)
      else
        (let nextOrderNumber = parseInt10 (local_or (st_local st) ''nextOrderNumber'' ''1'');
             order = new_order rnd now nextOrderNumber (st_basket st)
         in case saveOrder (order_json order) st of
              Inl e \<Rightarrow> (CreateFailed e, st)
            | Inr st1 \<Rightarrow>
                (let ls1 = (st_local st1)(''nextOrderNumber'' \<mapsto>
                             int_str (map_option (\<lambda>n. n + 1) nextOrderNumber));
                     ls2 = count_basket (st_basket st1) ls1
                 in (Created order, st1\<lparr>st_local := ls2, st_basket := clearBasket (st_basket st1)\<rparr>))))"



text \<open>
  The example of the specification: two Steam Momos at 80 and one Veg Hakka Noodles at
  120 give the total 280, and the usage counters of the two items grow by 2 and by 1.
\<close>

definition momo_basket :: basket where
  "momo_basket = add_all [steam_momos, steam_momos, veg_hakka_noodles] []"

definition open_shop :: app_state where
  "open_shop = \<lparr>st_db = True, st_menu = [], st_orders = [], st_archive = [],
     st_local = (\<lambda>k. None), st_basket = momo_basket\<rparr>"

subsection \<open>Status changes\<close>

text \<open>
  The handlers that \<^verbatim>\<open>renderOrderCard\<close> puts on each of the four status buttons of an
  order card. \<^verbatim>\<open>flow.indexOf(s)\<close> is \<open>-1\<close> for a status that is not in the flow.
\<close>

definition flow :: "string list" where
  "flow = [''Yet to prepare'', ''Preparing'', ''Prepared'', ''Satisfied'']"

fun index_from :: "int \<Rightarrow> string list \<Rightarrow> string \<Rightarrow> int" where
  "index_from i [] x = - 1"
| "index_from i (y # ys) x = (if y = x then i else index_from (i + 1) ys x)"

definition indexOf :: "string list \<Rightarrow> string \<Rightarrow> int" where
  "indexOf xs x = index_from 0 xs x"

definition canMoveForward :: "string \<Rightarrow> string \<Rightarrow> bool" where
  "canMoveForward cur nxt = (indexOf flow nxt = indexOf flow cur + 1)"

definition canMoveBackward :: "string \<Rightarrow> string \<Rightarrow> bool" where
  "canMoveBackward cur nxt = (indexOf flow nxt = indexOf flow cur - 1)"

text \<open>
  What a handler does: it calls \<^verbatim>\<open>onStatusChange(order.id, newStatus)\<close>, shows a toast,
  or opens the confirm dialog, whose Confirm button calls
  \<^verbatim>\<open>onStatusChange(order.id, newStatus)\<close>. A handler gets the flag
  \<^verbatim>\<open>longPressActivated\<close> of its button and returns the new flag. The click handler is
  the listener of the \<^verbatim>\<open>click\<close> event, the long-press handler is the body of the timer
  that fires after the button was held for 500 ms.
\<close>

datatype ui_effect =
    StatusChange string string
  | Toast string
  | Confirm string string string

definition click_handler :: "order \<Rightarrow> string \<Rightarrow> bool \<Rightarrow> ui_effect list \<times> bool" where
  "click_handler order newStatus longPressActivated =
     (if longPressActivated then ([], False)
      else if newStatus = ord_status order then ([], longPressActivated)
      else if canMoveForward (ord_status order) newStatus
        then ([StatusChange (ord_id order) newStatus], longPressActivated)
      else ([Toast ''Invalid status transition''], longPressActivated))"

definition long_press_handler :: "order \<Rightarrow> string \<Rightarrow> bool \<Rightarrow> ui_effect list \<times> bool" where
  "long_press_handler order newStatus longPressActivated =
     (if newStatus \<noteq> ord_status order \<and> canMoveBackward (ord_status order) newStatus
        then ([Confirm ''Move backward?'' (ord_id order) newStatus], True)
      else ([Toast ''Invalid status transition''], longPressActivated))"

text \<open>\<^verbatim>\<open>order.status = status\<close> on a stored record, and the storage function.\<close>

fun set_prop :: "string \<Rightarrow> jsval \<Rightarrow> jsval \<Rightarrow> jsval" where
  "set_prop k v (JObj fs) =
     JObj (if map_of fs k = None then fs @ [(k, v)]
           else map (\<lambda>(k', v'). if k' = k then (k', v) else (k', v')) fs)"
| "set_prop k v other = other"

definition updateOrderStatus :: "string \<Rightarrow> jsval \<Rightarrow> app_state \<Rightarrow> error + app_state" where
  "updateOrderStatus orderId status st =
     (if \<not> st_db st then Inl StorageUnavailable
      else case store_get (KStr orderId) (st_orders st) of
             None \<Rightarrow> Inl OrderNotFound
           | Some order \<Rightarrow>
               (case put_record (set_prop ''status'' status order) (st_orders st) of
                  Inl e \<Rightarrow> Inl e
                | Inr s \<Rightarrow> Inr (st\<lparr>st_orders := s\<rparr>)))"

text \<open>
  \<^verbatim>\<open>handleOrderStatusChange\<close> is the \<^verbatim>\<open>onStatusChange\<close> of the cards: it catches a
  rejected update (and alerts). \<open>confirmed\<close> says whether the user presses Confirm.
\<close>

definition handleOrderStatusChange :: "string \<Rightarrow> string \<Rightarrow> app_state \<Rightarrow> app_state" where
  "handleOrderStatusChange orderId newStatus st =
     (case updateOrderStatus orderId (JStr newStatus) st of
        Inl e \<Rightarrow> st
      | Inr st' \<Rightarrow> st')"

fun run_effect :: "bool \<Rightarrow> ui_effect \<Rightarrow> app_state \<Rightarrow> app_state" where
  "run_effect confirmed (StatusChange orderId s) st = handleOrderStatusChange orderId s st"
| "run_effect confirmed (Toast m) st = st"
| "run_effect confirmed (Confirm m orderId s) st =
     (if confirmed then handleOrderStatusChange orderId s st else st)"

text \<open>The steps of the linear state machine, in the words of the specification.\<close>

definition forward_steps :: "(string \<times> string) list" where
  "forward_steps = [(''Yet to prepare'', ''Preparing''), (''Preparing'', ''Prepared''),
     (''Prepared'', ''Satisfied'')]"

definition backward_steps :: "(string \<times> string) list" where
  "backward_steps = [(''Preparing'', ''Yet to prepare''), (''Prepared'', ''Preparing''),
     (''Satisfied'', ''Prepared'')]"

definition shop_with_order :: app_state where
  "shop_with_order = \<lparr>st_db = True, st_menu = [],
     st_orders = [(KStr ''ord-abc123'', order_json fried_rice_order)], st_archive = [],
     st_local = (\<lambda>k. None), st_basket = []\<rparr>"

subsection \<open>Rollover and archival\<close>

text \<open>
  \<^verbatim>\<open>saveArchive\<close> and \<^verbatim>\<open>saveOrders\<close> await one \<^verbatim>\<open>put\<close> after the other; a \<^verbatim>\<open>put\<close> that
  throws ends the loop and leaves what was written. \<^verbatim>\<open>getAllOrders\<close> drops the records
  that fail the structural predicate. A void promise is \<open>None\<close> when it resolves and
  \<open>Some e\<close> when it rejects.
\<close>

fun put_each :: "jsval list \<Rightarrow> objstore \<Rightarrow> error option \<times> objstore" where
  "put_each [] s = (None, s)"
| "put_each (v # vs) s =
     (case put_record v s of
        Inl e \<Rightarrow> (Some e, s)
      | Inr s' \<Rightarrow> put_each vs s')"

definition getAllOrders :: "app_state \<Rightarrow> error + jsval list" where
  "getAllOrders st =
     (if \<not> st_db st then Inl StorageUnavailable
      else Inr (filter isValidOrder (store_getAll (st_orders st))))"

definition saveArchive :: "jsval list \<Rightarrow> app_state \<Rightarrow> error option \<times> app_state" where
  "saveArchive ordersArray st =
     (if \<not> st_db st then (Some StorageUnavailable, st)
      else case put_each ordersArray (st_archive st) of
             (r, s) \<Rightarrow> (r, st\<lparr>st_archive := s\<rparr>))"

definition saveOrders :: "jsval list \<Rightarrow> app_state \<Rightarrow> error option \<times> app_state" where
  "saveOrders ordersArray st =
     (if \<not> st_db st then (Some StorageUnavailable, st)
      else case put_each ordersArray [] of
             (r, s) \<Rightarrow> (r, st\<lparr>st_orders := s\<rparr>))"

text \<open>
  The moment of a call, as \<^verbatim>\<open>new Date()\<close> gives it. The code reads three things off
  it: \<^verbatim>\<open>toISOString().slice(0, 10)\<close>, which is the date in UTC, and \<^verbatim>\<open>getHours()\<close> and
  \<^verbatim>\<open>getMinutes()\<close>, which are local time. \<open>now_local_date\<close> is the calendar day of the
  shop at that moment, in the time zone of \<^verbatim>\<open>getHours()\<close>; the code never reads it, and
  it differs from the UTC date for the hours of the day that the time zone is off UTC.
\<close>

record clock =
  now_iso_date :: string
  now_local_date :: string
  now_hours :: nat
  now_minutes :: nat

text \<open>
  \<^verbatim>\<open>closeShopNow\<close> catches what its steps reject (and shows a toast); the result says
  whether it ran through.
\<close>

definition closeShopNow :: "clock \<Rightarrow> app_state \<Rightarrow> error option \<times> app_state" where
  "closeShopNow clk st =
     (case getAllOrders st of
        Inl e \<Rightarrow> (Some e, st)
      | Inr orders \<Rightarrow>
          (case (if orders \<noteq> [] then saveArchive orders st else (None, st)) of
             (Some e, st1) \<Rightarrow> (Some e, st1)
           | (None, st1) \<Rightarrow>
               (case saveOrders [] st1 of
                  (Some e, st2) \<Rightarrow> (Some e, st2)
                | (None, st2) \<Rightarrow>
                    (None, st2\<lparr>st_local := (st_local st2)(''lastResetDate'' \<mapsto> now_iso_date clk)\<rparr>))))"

text \<open>\<^verbatim>\<open>closing.split(':')\<close>, \<^verbatim>\<open>s || d\<close> on strings, and comparisons with a parsed number, which are false for \<^verbatim>\<open>NaN\<close>.\<close>

fun split_colon :: "string \<Rightarrow> string list" where
  "split_colon [] = [[]]"
| "split_colon (c # cs) =
     (if c = CHR '':'' then [] # split_colon cs
      else (case split_colon cs of
              p # ps \<Rightarrow> (c # p) # ps
            | [] \<Rightarrow> [[c]]))"

definition str_or :: "string \<Rightarrow> string \<Rightarrow> string" where
  "str_or s d = (if s = [] then d else s)"

definition num_gt :: "int \<Rightarrow> int option \<Rightarrow> bool" where
  "num_gt a b = (case b of None \<Rightarrow> False | Some c \<Rightarrow> a > c)"

definition num_eq :: "int \<Rightarrow> int option \<Rightarrow> bool" where
  "num_eq a b = (case b of None \<Rightarrow> False | Some c \<Rightarrow> a = c)"

definition num_ge :: "int \<Rightarrow> int option \<Rightarrow> bool" where
  "num_ge a b = (case b of None \<Rightarrow> False | Some c \<Rightarrow> a \<ge> c)"

text \<open>
  The constant \<^verbatim>\<open>afterClosing\<close> of \<^verbatim>\<open>maybeDailyReset\<close>; a missing second part of the
  closing time is \<^verbatim>\<open>undefined\<close> and falsy like the empty string.
\<close>

definition afterClosing :: "clock \<Rightarrow> (string \<Rightarrow> string option) \<Rightarrow> bool" where
  "afterClosing clk ls =
     (let closing = local_or ls ''closingTime'' ''23:00'';
          parts = split_colon closing;
          ch = parseInt10 (str_or (hd parts) ''23'');
          cm = parseInt10 (str_or (case tl parts of [] \<Rightarrow> [] | p # ps \<Rightarrow> p) ''0'')
      in num_gt (int (now_hours clk)) ch \<or>
         (num_eq (int (now_hours clk)) ch \<and> num_ge (int (now_minutes clk)) cm))"

datatype reset_outcome = NotTriggered | Triggered "error option"

definition maybeDailyReset :: "clock \<Rightarrow> app_state \<Rightarrow> reset_outcome \<times> app_state" where
  "maybeDailyReset clk st =
     (let todayStr = now_iso_date clk;
          last = local_or (st_local st) ''lastResetDate'' []
      in if last \<noteq> todayStr then
           (case closeShopNow clk st of (r, st') \<Rightarrow> (Triggered r, st'))
         else if afterClosing clk (st_local st) then
           (case closeShopNow clk st of (r, st') \<Rightarrow> (Triggered r, st'))
         else (NotTriggered, st))"




definition pacific_afternoon :: clock where
  "pacific_afternoon = \<lparr>now_iso_date = ''2024-05-01'', now_local_date = ''2024-05-01'',
     now_hours = 15, now_minutes = 30\<rparr>"

definition pacific_later_afternoon :: clock where
  "pacific_later_afternoon = \<lparr>now_iso_date = ''2024-05-02'', now_local_date = ''2024-05-01'',
     now_hours = 16, now_minutes = 30\<rparr>"

subsection \<open>Import and export\<close>

text \<open>
  Adding records one after the other: the first \<^verbatim>\<open>add\<close> that fails ends the run, with
  \<open>DataError\<close> for a record without a key and \<open>ConstraintError\<close> for a key that is
  already in the store.
\<close>

fun add_each :: "jsval list \<Rightarrow> objstore \<Rightarrow> error option \<times> objstore" where
  "add_each [] s = (None, s)"
| "add_each (v # vs) s =
     (case add_record v s of
        Inl e \<Rightarrow> (Some e, s)
      | Inr s' \<Rightarrow> add_each vs s')"

text \<open>
  \<^verbatim>\<open>saveMenu\<close> clears the store and requests an \<^verbatim>\<open>add\<close> for every item in one
  transaction. A record without a key makes \<^verbatim>\<open>add\<close> throw at once: the promise rejects,
  and what was requested before it is still written. An \<^verbatim>\<open>add\<close> of a key that is
  already there fails when it runs and aborts the transaction, which undoes the clear
  as well.
\<close>

definition saveMenu :: "jsval list \<Rightarrow> app_state \<Rightarrow> error option \<times> app_state" where
  "saveMenu menuArray st =
     (if \<not> st_db st then (Some StorageUnavailable, st)
      else
        (let requested = takeWhile (\<lambda>item. key_of item \<noteq> None) menuArray;
             thrown = (length requested < length menuArray)
         in case add_each requested [] of
              (Some e, s) \<Rightarrow> (Some (if thrown then DataError else e), st)
            | (None, s) \<Rightarrow> (if thrown then Some DataError else None, st\<lparr>st_menu := s\<rparr>)))"

definition getMenu :: "app_state \<Rightarrow> error + jsval list" where
  "getMenu st =
     (if \<not> st_db st then Inl StorageUnavailable
      else Inr (filter isValidMenuItem (store_getAll (st_menu st))))"

definition exportAll :: "app_state \<Rightarrow> error + jsval" where
  "exportAll st =
     (case getMenu st of
        Inl e \<Rightarrow> Inl e
      | Inr menu \<Rightarrow>
          (case getAllOrders st of
             Inl e \<Rightarrow> Inl e
           | Inr orders \<Rightarrow> Inr (JObj [(''menu'', JArr menu), (''orders'', JArr orders)])))"

text \<open>
  The elements of an array. The orders of a backup are added with awaited requests
  after an awaited clear; a failed \<^verbatim>\<open>add\<close> rejects and aborts the transaction.
\<close>

definition array_items :: "jsval \<Rightarrow> jsval list" where
  "array_items v = (case v of JArr xs \<Rightarrow> xs | _ \<Rightarrow> [])"

definition import_orders :: "jsval list \<Rightarrow> objstore \<Rightarrow> error option \<times> objstore" where
  "import_orders validOrders old =
     (case add_each validOrders [] of
        (None, s) \<Rightarrow> (None, s)
      | (Some ConstraintError, s) \<Rightarrow> (Some ConstraintError, old)
      | (Some e, s) \<Rightarrow> (Some e, s))"

definition importAll :: "jsval \<Rightarrow> app_state \<Rightarrow> error option \<times> app_state" where
  "importAll json st =
     (if \<not> truthy json \<or> \<not> is_object json then (Some InvalidBackup, st)
      else if \<not> truthy (jprop json ''menu'') \<or> \<not> is_array (jprop json ''menu'')
        then (Some InvalidBackup, st)
      else if \<not> truthy (jprop json ''orders'') \<or> \<not> is_array (jprop json ''orders'')
        then (Some InvalidBackup, st)
      else if \<not> st_db st then (Some StorageUnavailable, st)
      else
        (let validMenu = filter isValidMenuItem (array_items (jprop json ''menu''))
         in if validMenu = [] \<and> array_items (jprop json ''menu'') \<noteq> []
              then (Some InvalidBackup, st)
            else
              (case saveMenu validMenu st of
                 (Some e, st1) \<Rightarrow> (Some e, st1)
               | (None, st1) \<Rightarrow>
                   (let validOrders = filter isValidOrder (array_items (jprop json ''orders''))
                    in case import_orders validOrders (st_orders st1) of
                         (r, s) \<Rightarrow> (r, st1\<lparr>st_orders := s\<rparr>)))))"

text \<open>
  The invariant of an object store with in-line keys: the records are in strictly
  ascending key order, and every record sits under the key that its \<^verbatim>\<open>id\<close> gives.
\<close>

definition wf_store :: "objstore \<Rightarrow> bool" where
  "wf_store s \<longleftrightarrow>
     sorted_wrt (\<lambda>a b. key_lt (fst a) (fst b)) s \<and> (\<forall>(k, v) \<in> set s. key_of v = Some k)"

text \<open>A valid menu record, one whose price is a string, and a shop that has the first on its menu.\<close>

definition momos_record :: jsval where
  "momos_record = JObj [(''id'', JNum (Fin 1)), (''name'', JStr ''Steam Momos''),
     (''price'', JNum (Fin 80)), (''category'', JStr ''Momos''),
     (''favorite'', JBool False), (''hidden'', JBool False)]"

definition broken_record :: jsval where
  "broken_record = JObj [(''id'', JNum (Fin 2)), (''name'', JStr ''Fried Momos''),
     (''price'', JStr ''90'')]"

definition stocked_shop :: app_state where
  "stocked_shop = shop_with_order\<lparr>st_menu := [(KNum (Fin 1), momos_record)]\<rparr>"

section \<open>Properties\<close>

subsection \<open>Strings and integers of the host language\<close>

lemma includes_str_sublist: "includes_str s q \<longleftrightarrow> sublist q s"
  by (induction s) (auto simp: sublist_Cons_right)




lemma digit_not_ws: "is_digit c \<Longrightarrow> \<not> is_ws c \<and> c \<noteq> CHR ''-'' \<and> c \<noteq> CHR ''+''"
  by (auto simp: is_digit_def is_ws_def)





subsection \<open>Numbers of the host language\<close>

lemma exp_down_0: "exp_down b 0 a = 0"
  by (simp add: exp_down.simps)

lemma exp_down_Suc: "exp_down b (Suc n) a = (if a < b then 0 else 1 + exp_down b n (a / b))"
  by (subst exp_down.simps) simp

lemma exp_up_0: "exp_up b 0 a = 0"
  by (simp add: exp_up.simps)

lemma exp_up_Suc: "exp_up b (Suc n) a = (if 1 \<le> a then 0 else exp_up b n (a * b) - 1)"
  by (subst exp_up.simps) simp

lemma powi_succ: "b \<noteq> 0 \<Longrightarrow> (b :: rat) powi (e + 1) = b powi e * b"
  using power_int_add[of b e 1] by simp

lemma powi_succ': "b \<noteq> 0 \<Longrightarrow> (b :: rat) powi (1 + e) = b powi e * b"
  using powi_succ[of b e] by (simp add: add.commute)

lemma powi_pred: "b \<noteq> 0 \<Longrightarrow> (b :: rat) powi (e - 1) = b powi e / b"
  using power_int_diff[of b e 1] by simp

lemma powi_neg_Suc: "b \<noteq> 0 \<Longrightarrow> (b :: rat) powi (- int (Suc n)) = b powi (- int n) / b"
proof -
  assume "b \<noteq> 0"
  have "- int (Suc n) = - int n - 1" by simp
  then show ?thesis using powi_pred[OF \<open>b \<noteq> 0\<close>, of "- int n"] by (simp only:)
qed

lemma exp_down_bounds:
  "1 < b \<Longrightarrow> 1 \<le> a \<Longrightarrow> a < b ^ n \<Longrightarrow>
     0 \<le> exp_down b n a \<and> exp_down b n a < int n
     \<and> b powi (exp_down b n a) \<le> a \<and> a < b powi (exp_down b n a + 1)"
proof (induction n arbitrary: a)
  case 0
  then show ?case by simp
next
  case (Suc n)
  show ?case
  proof (cases "a < b")
    case True
    with Suc.prems show ?thesis by (simp add: exp_down_Suc)
  next
    case False
    with Suc.prems have "1 \<le> a / b" "a / b < b ^ n"
      by (simp_all add: field_simps)
    from Suc.IH[OF Suc.prems(1) this]
    have ih: "0 \<le> exp_down b n (a / b)" "exp_down b n (a / b) < int n"
      "b powi (exp_down b n (a / b)) \<le> a / b" "a / b < b powi (exp_down b n (a / b) + 1)"
      by simp_all
    have b0: "0 < b" "b \<noteq> 0" using Suc.prems(1) by simp_all
    have "b powi (1 + exp_down b n (a / b)) = b * b powi (exp_down b n (a / b))"
      using powi_succ'[OF b0(2), of "exp_down b n (a / b)"] by (simp add: mult.commute)
    moreover have "b powi (1 + exp_down b n (a / b) + 1) = b * b powi (exp_down b n (a / b) + 1)"
      using powi_succ'[OF b0(2), of "exp_down b n (a / b) + 1"] by (simp add: mult.commute add.assoc add.commute)
    moreover have "b * b powi (exp_down b n (a / b)) \<le> a"
      using ih(3) b0 by (simp add: field_simps)
    moreover have "a < b * b powi (exp_down b n (a / b) + 1)"
      using ih(4) b0 by (simp add: field_simps)
    ultimately show ?thesis
      using False ih(1,2) by (simp add: exp_down_Suc del: power_int_add_numeral power_int_add_numeral2)
  qed
qed

lemma exp_down_top: "1 < b \<Longrightarrow> b ^ n \<le> a \<Longrightarrow> exp_down b n a = int n"
proof (induction n arbitrary: a)
  case 0
  then show ?case by (simp add: exp_down_0)
next
  case (Suc n)
  have "b \<le> b * b ^ n"
    using Suc.prems(1) by (simp add: one_le_power)
  with Suc.prems(2) have "\<not> a < b" by simp
  moreover from Suc.prems have "b ^ n \<le> a / b"
    by (simp add: field_simps)
  ultimately show ?case
    using Suc.IH[OF Suc.prems(1), of "a / b"] by (simp add: exp_down_Suc)
qed

lemma exp_up_bounds:
  "1 < b \<Longrightarrow> 0 < a \<Longrightarrow> a < b \<Longrightarrow> b powi (- int n) \<le> a \<Longrightarrow>
     - int n \<le> exp_up b n a \<and> exp_up b n a \<le> 0
     \<and> b powi (exp_up b n a) \<le> a \<and> a < b powi (exp_up b n a + 1)"
proof (induction n arbitrary: a)
  case 0
  then show ?case by (simp add: exp_up_0)
next
  case (Suc n)
  have b0: "0 < b" "b \<noteq> 0" using Suc.prems(1) by simp_all
  show ?case
  proof (cases "1 \<le> a")
    case True
    with Suc.prems show ?thesis by (simp add: exp_up_Suc)
  next
    case False
    have "b powi (- int (Suc n)) = b powi (- int n) / b"
      by (rule powi_neg_Suc[OF b0(2)])
    with Suc.prems(4) b0 have lo: "b powi (- int n) \<le> a * b"
      by (simp only: pos_divide_le_eq)
    from False b0 have hi: "a * b < b" by simp
    from Suc.prems(2) b0 have pos: "0 < a * b" by simp
    from Suc.IH[OF Suc.prems(1) pos hi lo]
    have ih: "- int n \<le> exp_up b n (a * b)" "exp_up b n (a * b) \<le> 0"
      "b powi (exp_up b n (a * b)) \<le> a * b" "a * b < b powi (exp_up b n (a * b) + 1)"
      by simp_all
    have "b powi (exp_up b n (a * b) - 1) = b powi (exp_up b n (a * b)) / b"
      by (rule powi_pred[OF b0(2)])
    moreover have "b powi (exp_up b n (a * b) - 1 + 1) = b powi (exp_up b n (a * b) + 1) / b"
      using powi_succ[OF b0(2), of "exp_up b n (a * b)"] b0 by simp
    moreover have "b powi (exp_up b n (a * b)) / b \<le> a"
      using ih(3) b0 by (simp add: field_simps)
    moreover have "a < b powi (exp_up b n (a * b) + 1) / b"
      using ih(4) b0 by (simp add: field_simps)
    ultimately show ?thesis
      using False ih(1,2) by (simp add: exp_up_Suc)
  qed
qed

lemma exp_up_bottom:
  "1 < b \<Longrightarrow> 0 < a \<Longrightarrow> a < b powi (- int n) \<Longrightarrow> exp_up b n a = - int n"
proof (induction n arbitrary: a)
  case 0
  then show ?case by (simp add: exp_up_0)
next
  case (Suc n)
  have b0: "0 < b" "b \<noteq> 0" using Suc.prems(1) by simp_all
  have eq: "b powi (- int (Suc n)) = b powi (- int n) / b"
    by (rule powi_neg_Suc[OF b0(2)])
  have "b powi (- int n) \<le> 1"
    using Suc.prems(1) by (simp add: power_int_def inverse_eq_divide field_simps one_le_power)
  then have "b powi (- int (Suc n)) \<le> 1"
    using b0 Suc.prems(1) unfolding eq by (simp add: field_simps)
  with Suc.prems(3) have "\<not> 1 \<le> a" by simp
  moreover from Suc.prems(3) b0 have "a * b < b powi (- int n)"
    unfolding eq by (simp add: field_simps)
  moreover from Suc.prems(2) b0 have "0 < a * b" by simp
  ultimately show ?case
    using Suc.IH[OF Suc.prems(1), of "a * b"] by (simp add: exp_up_Suc)
qed


lemma binary_exponent_range:
  assumes "0 < a"
  shows "- 1022 \<le> binary_exponent a" "binary_exponent a \<le> 1024"
proof -
  have "- 1022 \<le> binary_exponent a \<and> binary_exponent a \<le> 1024"
  proof (cases "1 \<le> a")
    case True
    show ?thesis
    proof (cases "a < 2 ^ 1024")
      case True
      with \<open>1 \<le> a\<close> exp_down_bounds[of 2 a 1024] show ?thesis
        by (simp add: binary_exponent_def)
    next
      case False
      with \<open>1 \<le> a\<close> exp_down_top[of 2 1024 a] show ?thesis
        by (simp add: binary_exponent_def)
    qed
  next
    case False
    show ?thesis
    proof (cases "2 powi (- int 1022) \<le> a")
      case True
      with False assms exp_up_bounds[of 2 a 1022] show ?thesis
        by (simp add: binary_exponent_def)
    next
      case False
      with \<open>\<not> 1 \<le> a\<close> assms exp_up_bottom[of 2 a 1022] show ?thesis
        by (simp add: binary_exponent_def)
    qed
  qed
  then show "- 1022 \<le> binary_exponent a" "binary_exponent a \<le> 1024" by simp_all
qed

lemma binary_exponent_upper:
  assumes "0 < a" "a < 2 ^ 1024"
  shows "a < 2 powi (binary_exponent a + 1)" "binary_exponent a \<le> 1023"
proof -
  have "a < 2 powi (binary_exponent a + 1) \<and> binary_exponent a \<le> 1023"
  proof (cases "1 \<le> a")
    case True
    with assms exp_down_bounds[of 2 a 1024] show ?thesis
      by (simp add: binary_exponent_def)
  next
    case False
    show ?thesis
    proof (cases "2 powi (- int 1022) \<le> a")
      case True
      with False assms exp_up_bounds[of 2 a 1022] show ?thesis
        by (simp add: binary_exponent_def)
    next
      case f: False
      with False assms exp_up_bottom[of 2 a 1022] have e: "binary_exponent a = - 1022"
        by (simp add: binary_exponent_def)
      have "(2 :: rat) powi (- int 1022) \<le> 2 powi (- 1022 + 1)"
        by (rule power_int_increasing) simp_all
      with f show ?thesis unfolding e by simp
    qed
  qed
  then show "a < 2 powi (binary_exponent a + 1)" "binary_exponent a \<le> 1023" by simp_all
qed

lemma binary_exponent_lower:
  assumes "2 powi (- 1022) \<le> a"
  shows "2 powi (binary_exponent a) \<le> a"
proof -
  have pos: "0 < a"
    using assms zero_less_power_int[of "2 :: rat" "- 1022"] by linarith
  show ?thesis
  proof (cases "1 \<le> a")
    case True
    show ?thesis
    proof (cases "a < 2 ^ 1024")
      case True
      with \<open>1 \<le> a\<close> exp_down_bounds[of 2 a 1024] show ?thesis
        by (simp add: binary_exponent_def)
    next
      case False
      with \<open>1 \<le> a\<close> exp_down_top[of 2 1024 a] show ?thesis
        by (simp add: binary_exponent_def)
    qed
  next
    case False
    with assms pos exp_up_bounds[of 2 a 1022] show ?thesis
      by (simp add: binary_exponent_def)
  qed
qed

lemma binary_exponent_subnormal:
  assumes "0 < a" "a < 2 powi (- 1022)"
  shows "binary_exponent a = - 1022"
proof -
  have "(2 :: rat) powi (- 1022) \<le> 2 powi 0"
    by (rule power_int_increasing) simp_all
  then have "(2 :: rat) powi (- 1022) \<le> 1" by simp
  with assms have "\<not> 1 \<le> a" by simp
  with assms exp_up_bottom[of 2 a 1022] show ?thesis
    by (simp add: binary_exponent_def)
qed


lemma round_even_int: "round_even (of_int k) = k"
  by (simp add: round_even_def)

lemma round_even_near: "\<bar>of_int (round_even q) - q\<bar> \<le> 1 / 2"
proof -
  have "of_int \<lfloor>q\<rfloor> \<le> q" "q < of_int \<lfloor>q\<rfloor> + 1"
    by linarith+
  then show ?thesis
    by (auto simp: round_even_def Let_def abs_le_iff)
qed

lemma round_even_le: "q \<le> of_int k \<Longrightarrow> round_even q \<le> k"
proof -
  assume a: "q \<le> of_int k"
  show ?thesis
  proof (cases "q = of_int k")
    case True
    then show ?thesis by (simp add: round_even_int)
  next
    case False
    with a have "q < of_int k" by simp
    then have "\<lfloor>q\<rfloor> < k" by (simp add: floor_less_iff)
    then have "\<lfloor>q\<rfloor> + 1 \<le> k" by simp
    then show ?thesis by (auto simp: round_even_def Let_def)
  qed
qed

lemma round_even_ge: "of_int k \<le> q \<Longrightarrow> k \<le> round_even q"
proof -
  assume "of_int k \<le> q"
  then have "k \<le> \<lfloor>q\<rfloor>" by (simp add: le_floor_iff)
  then show ?thesis by (auto simp: round_even_def Let_def)
qed

lemma powi_quotient:
  assumes "e \<le> e0"
  shows "(2 :: rat) powi (e0 - 52) / 2 powi (e - 52) = of_int (2 ^ nat (e0 - e))"
proof -
  have "(2 :: rat) powi ((e0 - 52) - (e - 52)) = 2 powi (e0 - 52) / 2 powi (e - 52)"
    by (rule power_int_diff) simp
  moreover have "(e0 - 52) - (e - 52) = e0 - e" by simp
  moreover have "(2 :: rat) powi (e0 - e) = 2 ^ nat (e0 - e)"
    using assms by (simp add: power_int_def)
  ultimately show ?thesis by simp
qed

lemma powi_le_exp: "(2 :: rat) powi x \<le> 2 powi y \<Longrightarrow> x \<le> y"
proof (rule ccontr)
  assume le: "(2 :: rat) powi x \<le> 2 powi y" and "\<not> x \<le> y"
  then have "y < x" by simp
  then have "(2 :: rat) powi y < 2 powi x"
    by (rule power_int_strict_increasing) simp
  with le show False by simp
qed

lemma scaled_quotient:
  assumes "e \<le> e0"
  shows "of_int m * (2 :: rat) powi (e0 - 52) / 2 powi (e - 52) = of_int (m * 2 ^ nat (e0 - e))"
proof -
  have "of_int m * (2 :: rat) powi (e0 - 52) / 2 powi (e - 52)
      = of_int m * (2 powi (e0 - 52) / 2 powi (e - 52))"
    by simp
  also have "\<dots> = of_int m * of_int (2 ^ nat (e0 - e))"
    by (simp only: powi_quotient[OF assms])
  finally show ?thesis by simp
qed

lemma representable_ulps:
  assumes m: "0 < m" "m \<le> 2 ^ 53" and e0: "- 1022 \<le> e0"
    and a: "a = of_int m * 2 powi (e0 - 52)"
  shows "\<exists>k. a / 2 powi (binary_exponent a - 52) = of_int k"
proof -
  let ?e = "binary_exponent a"
  have p: "0 < (2 :: rat) powi (e0 - 52)" by simp
  have pos: "0 < a" unfolding a using m(1) p by simp
  have le: "a \<le> 2 powi (e0 + 1)"
  proof -
    have "(of_int m :: rat) \<le> of_int (2 ^ 53)"
      using m(2) by (simp only: of_int_le_iff)
    then have "(of_int m :: rat) \<le> 2 ^ 53" by simp
    then have "a \<le> 2 ^ 53 * 2 powi (e0 - 52)"
      unfolding a using p by (simp only: mult_le_cancel_right_pos)
    also have "(2 :: rat) ^ 53 * 2 powi (e0 - 52) = 2 powi (e0 + 1)"
    proof -
      have "(2 :: rat) powi (53 + (e0 - 52)) = 2 powi 53 * 2 powi (e0 - 52)"
        by (rule power_int_add) simp
      moreover have "53 + (e0 - 52) = e0 + 1" by simp
      moreover have "(2 :: rat) powi 53 = 2 ^ 53" by simp
      ultimately show ?thesis by (simp only:)
    qed
    finally show ?thesis .
  qed
  consider (sub) "a < 2 powi (- 1022)" | (low) "2 powi (- 1022) \<le> a" "?e \<le> e0"
    | (top) "2 powi (- 1022) \<le> a" "e0 < ?e"
    by linarith
  then show ?thesis
  proof cases
    case sub
    then have "?e \<le> e0" using binary_exponent_subnormal[OF pos] e0 by simp
    from scaled_quotient[OF this, of m]
    have "of_int m * (2 :: rat) powi (e0 - 52) / 2 powi (?e - 52) = of_int (m * 2 ^ nat (e0 - ?e))" .
    moreover have "a / 2 powi (?e - 52) = of_int m * 2 powi (e0 - 52) / 2 powi (?e - 52)"
      using a by simp
    ultimately have "a / 2 powi (?e - 52) = of_int (m * 2 ^ nat (e0 - ?e))" by (simp only:)
    then show ?thesis by blast
  next
    case low
    from scaled_quotient[OF low(2), of m]
    have "of_int m * (2 :: rat) powi (e0 - 52) / 2 powi (?e - 52) = of_int (m * 2 ^ nat (e0 - ?e))" .
    moreover have "a / 2 powi (?e - 52) = of_int m * 2 powi (e0 - 52) / 2 powi (?e - 52)"
      using a by simp
    ultimately have "a / 2 powi (?e - 52) = of_int (m * 2 ^ nat (e0 - ?e))" by (simp only:)
    then show ?thesis by blast
  next
    case top
    from binary_exponent_lower[OF top(1)] le have "(2 :: rat) powi ?e \<le> 2 powi (e0 + 1)"
      by simp
    then have "?e \<le> e0 + 1" by (rule powi_le_exp)
    with top(2) have e: "?e = e0 + 1" by simp
    with binary_exponent_lower[OF top(1)] le have "a = 2 powi ?e" by simp
    moreover have "(2 :: rat) powi (?e - (?e - 52)) = 2 powi ?e / 2 powi (?e - 52)"
      by (rule power_int_diff) simp
    moreover have "(2 :: rat) powi (?e - (?e - 52)) = of_int (2 ^ 52)" by simp
    ultimately have "a / 2 powi (?e - 52) = of_int (2 ^ 52)" by (simp only:)
    then show ?thesis by blast
  qed
qed

lemma representable_exact:
  assumes "0 < m" "m \<le> 2 ^ 53" "- 1022 \<le> e0" "a = of_int m * 2 powi (e0 - 52)" "a < 2 ^ 1024"
  shows "number_for a = Fin a" "number_for (- a) = Fin (- a)"
proof -
  have pos: "0 < a" unfolding assms(4) using assms(1) by simp
  obtain k where k: "a / 2 powi (binary_exponent a - 52) = of_int k"
    using representable_ulps[OF assms(1-4)] by blast
  have restore: "of_int k * 2 powi (binary_exponent a - 52) = a"
    using k by (simp add: field_simps)
  show "number_for a = Fin a"
    using pos assms(5) by (simp add: number_for_def nearest_def ulp_of_def k round_even_int restore)
  show "number_for (- a) = Fin (- a)"
    using pos assms(5) by (simp add: number_for_def nearest_def ulp_of_def k round_even_int restore)
qed


lemma binary_exponent_top:
  assumes "2 ^ 1024 \<le> a"
  shows "binary_exponent a = 1024"
proof -
  have "(1 :: rat) \<le> 2 ^ 1024" by (rule one_le_power) simp
  with assms have "1 \<le> a" by simp
  with assms exp_down_top[of 2 1024 a] show ?thesis
    by (simp add: binary_exponent_def)
qed

lemma mantissa_nonneg: "0 < a \<Longrightarrow> 0 \<le> round_even (a / 2 powi (binary_exponent a - 52))"
proof -
  assume "0 < a"
  then have "of_int 0 \<le> a / 2 powi (binary_exponent a - 52)" by simp
  then show ?thesis by (rule round_even_ge)
qed

lemma mantissa_bound:
  assumes "0 < a" "a < 2 ^ 1024"
  shows "round_even (a / 2 powi (binary_exponent a - 52)) \<le> 2 ^ 53"
proof -
  let ?e = "binary_exponent a"
  have "(2 :: rat) powi ((?e + 1) - (?e - 52)) = 2 powi (?e + 1) / 2 powi (?e - 52)"
    by (rule power_int_diff) simp
  moreover have "(2 :: rat) powi ((?e + 1) - (?e - 52)) = 2 ^ 53" by simp
  ultimately have q: "(2 :: rat) powi (?e + 1) / 2 powi (?e - 52) = 2 ^ 53" by simp
  have "a \<le> 2 powi (?e + 1)"
    using binary_exponent_upper(1)[OF assms] by simp
  then have "a / 2 powi (?e - 52) \<le> 2 powi (?e + 1) / 2 powi (?e - 52)"
    by (rule divide_right_mono) simp
  then have "a / 2 powi (?e - 52) \<le> of_int (2 ^ 53)"
    unfolding q by simp
  then show ?thesis by (rule round_even_le)
qed

lemma number_for_form:
  assumes "number_for r = Fin v"
  shows "v = 0 \<or> (\<exists>m e0. 0 < m \<and> m \<le> 2 ^ 53 \<and> - 1022 \<le> e0
            \<and> \<bar>v\<bar> = of_int m * 2 powi (e0 - 52) \<and> \<bar>v\<bar> < 2 ^ 1024)"
proof (cases "r = 0")
  case True
  with assms show ?thesis by (simp add: number_for_def)
next
  case False
  define a where "a = \<bar>r\<bar>"
  define e where "e = binary_exponent a"
  define m where "m = round_even (a / 2 powi (e - 52))"
  have pos: "0 < a" using False by (simp add: a_def)
  have m0: "0 \<le> m" unfolding m_def e_def by (rule mantissa_nonneg[OF pos])
  have small: "\<not> 2 ^ 1024 \<le> of_int m * (2 :: rat) powi (e - 52)"
    using assms False by (auto simp: number_for_def nearest_def ulp_of_def a_def e_def m_def split: if_splits)
  have v: "\<bar>v\<bar> = of_int m * 2 powi (e - 52)"
  proof -
    have "v = of_int m * 2 powi (e - 52) \<or> v = - (of_int m * 2 powi (e - 52))"
      using assms False by (auto simp: number_for_def nearest_def ulp_of_def a_def e_def m_def split: if_splits)
    moreover have "0 \<le> of_int m * (2 :: rat) powi (e - 52)" using m0 by simp
    ultimately show ?thesis by auto
  qed
  have lt: "a < 2 ^ 1024"
  proof (rule ccontr)
    assume "\<not> a < 2 ^ 1024"
    then have big: "2 ^ 1024 \<le> a" by simp
    then have e1024: "e = 1024" unfolding e_def by (rule binary_exponent_top)
    have "(2 :: rat) ^ 52 * 2 ^ 972 = 2 ^ 1024" by (simp only: power_add[symmetric]) simp
    then have "(2 :: rat) ^ 52 \<le> a / 2 ^ 972"
      using big by (simp add: field_simps)
    then have "of_int (2 ^ 52) \<le> a / 2 powi (e - 52)" by (simp add: e1024)
    then have "2 ^ 52 \<le> m" unfolding m_def by (rule round_even_ge)
    then have "(of_int (2 ^ 52) :: rat) \<le> of_int m" by (simp only: of_int_le_iff)
    then have "(2 :: rat) ^ 52 * 2 ^ 972 \<le> of_int m * 2 ^ 972" by simp
    then have "2 ^ 1024 \<le> of_int m * (2 :: rat) powi (e - 52)"
      using \<open>(2 :: rat) ^ 52 * 2 ^ 972 = 2 ^ 1024\<close> by (simp add: e1024)
    with small show False by simp
  qed
  have "m \<le> 2 ^ 53" unfolding m_def e_def by (rule mantissa_bound[OF pos lt])
  moreover have "- 1022 \<le> e" unfolding e_def by (rule binary_exponent_range(1)[OF pos])
  moreover have "\<bar>v\<bar> < 2 ^ 1024" using small v by simp
  ultimately have rest: "m \<le> 2 ^ 53 \<and> - 1022 \<le> e
      \<and> \<bar>v\<bar> = of_int m * 2 powi (e - 52) \<and> \<bar>v\<bar> < 2 ^ 1024"
    using v by simp
  show ?thesis
  proof (cases "m = 0")
    case True
    with v show ?thesis by simp
  next
    case False
    with m0 have "0 < m" by simp
    with rest show ?thesis by blast
  qed
qed

lemma number_for_idem:
  assumes "number_for r = Fin v"
  shows "number_for v = Fin v"
proof -
  from number_for_form[OF assms] consider "v = 0"
    | m e0 where "0 < m" "m \<le> 2 ^ 53" "- 1022 \<le> e0" "\<bar>v\<bar> = of_int m * 2 powi (e0 - 52)"
        "\<bar>v\<bar> < 2 ^ 1024"
    by blast
  then show ?thesis
  proof cases
    case 1
    then show ?thesis by (simp add: number_for_def)
  next
    case 2
    from representable_exact[OF 2(1-3) 2(4) 2(5)]
    have "number_for \<bar>v\<bar> = Fin \<bar>v\<bar>" "number_for (- \<bar>v\<bar>) = Fin (- \<bar>v\<bar>)" .
    then show ?thesis by (cases "0 \<le> v") simp_all
  qed
qed

lemma number_for_int:
  assumes "\<bar>n\<bar> \<le> 2 ^ 53"
  shows "number_for (of_int n) = Fin (of_int n)"
proof (cases "n = 0")
  case True
  then show ?thesis by (simp add: number_for_def)
next
  case False
  have big: "(2 :: rat) ^ 53 < 2 ^ 1024" by (rule power_strict_increasing) simp_all
  have "(of_int \<bar>n\<bar> :: rat) \<le> of_int (2 ^ 53)" using assms by (simp only: of_int_le_iff)
  then have lt: "(of_int \<bar>n\<bar> :: rat) < 2 ^ 1024" using big by simp
  have "(of_int \<bar>n\<bar> :: rat) = of_int \<bar>n\<bar> * 2 powi (52 - 52)" by simp
  from representable_exact[OF _ assms _ this lt] False
  have "number_for (of_int \<bar>n\<bar>) = Fin (of_int \<bar>n\<bar>)" "number_for (- of_int \<bar>n\<bar>) = Fin (- of_int \<bar>n\<bar>)"
    by simp_all
  then show ?thesis by (cases "0 \<le> n") simp_all
qed

lemma nearest_error:
  assumes "0 < a"
  shows "\<bar>nearest a - a\<bar> \<le> ulp_of a / 2"
proof -
  have u: "0 < ulp_of a" by (simp add: ulp_of_def)
  have "\<bar>of_int (round_even (a / ulp_of a)) - a / ulp_of a\<bar> \<le> 1 / 2"
    by (rule round_even_near)
  then have "\<bar>of_int (round_even (a / ulp_of a)) - a / ulp_of a\<bar> * ulp_of a \<le> 1 / 2 * ulp_of a"
    using u by (simp only: mult_le_cancel_right_pos)
  moreover have "\<bar>of_int (round_even (a / ulp_of a)) - a / ulp_of a\<bar> * ulp_of a
      = \<bar>(of_int (round_even (a / ulp_of a)) - a / ulp_of a) * ulp_of a\<bar>"
    using u by (simp add: abs_mult)
  moreover have "(of_int (round_even (a / ulp_of a)) - a / ulp_of a) * ulp_of a = nearest a - a"
    using u by (simp add: nearest_def field_simps)
  ultimately show ?thesis by simp
qed

lemma half_ulp_bound:
  assumes "0 < a"
  shows "ulp_of a / 2 \<le> a / 2 ^ 53 + 1 / 2 ^ 1075"
proof (cases "2 powi (- 1022) \<le> a")
  case True
  have "(2 :: rat) powi (binary_exponent a - 52 - 1) = 2 powi (binary_exponent a - 52) / 2"
    by (rule powi_pred) simp
  moreover have "(2 :: rat) powi (binary_exponent a - 53) = 2 powi (binary_exponent a) / 2 powi 53"
    by (rule power_int_diff) simp
  moreover have "binary_exponent a - 52 - 1 = binary_exponent a - 53" by simp
  ultimately have "ulp_of a / 2 = 2 powi (binary_exponent a) / 2 ^ 53"
    by (simp add: ulp_of_def)
  also have "\<dots> \<le> a / 2 ^ 53"
    using binary_exponent_lower[OF True] by (simp add: divide_right_mono)
  finally show ?thesis by simp
next
  case False
  then have e: "binary_exponent a = - 1022"
    using binary_exponent_subnormal[OF assms] by simp
  have "(2 :: rat) powi (- 1074) / 2 = 1 / 2 ^ 1075"
    by (simp add: power_int_def field_simps)
  then have "ulp_of a / 2 = 1 / 2 ^ 1075"
    by (simp add: ulp_of_def e)
  with assms show ?thesis by simp
qed

lemma number_for_error:
  assumes "\<bar>r\<bar> \<le> 2 ^ 1000"
  shows "\<exists>v. number_for r = Fin v \<and> \<bar>v - r\<bar> \<le> \<bar>r\<bar> / 2 ^ 53 + 1 / 2 ^ 1075"
proof (cases "r = 0")
  case True
  then show ?thesis by (simp add: number_for_def)
next
  case False
  define a where "a = \<bar>r\<bar>"
  have pos: "0 < a" using False by (simp add: a_def)
  have err: "\<bar>nearest a - a\<bar> \<le> a / 2 ^ 53 + 1 / 2 ^ 1075"
    using nearest_error[OF pos] half_ulp_bound[OF pos] by linarith
  have "a / 2 ^ 53 \<le> a" using pos by (simp add: field_simps)
  moreover have "(1 :: rat) / 2 ^ 1075 \<le> 1" by simp
  ultimately have "nearest a \<le> 2 * a + 1" using err by (simp add: abs_le_iff)
  also have "2 * a + 1 \<le> 2 * 2 ^ 1000 + 1" using assms by (simp add: a_def)
  also have "(2 :: rat) * 2 ^ 1000 + 1 < 2 ^ 1024" by simp
  finally have small: "\<not> 2 ^ 1024 \<le> nearest a" by simp
  show ?thesis
  proof (cases "0 < r")
    case True
    with small err show ?thesis by (simp add: number_for_def a_def)
  next
    case neg: False
    with False have "r < 0" by simp
    then have "\<bar>- nearest a - r\<bar> = \<bar>nearest a - a\<bar>" by (simp add: a_def)
    with small err False neg show ?thesis by (simp add: number_for_def a_def)
  qed
qed

lemma tiny: "(1 :: rat) / 2 ^ 1075 \<le> 1 / 2 ^ 60"
proof -
  have "(2 :: rat) ^ 60 \<le> 2 ^ 1075" by (rule power_increasing) simp_all
  then show ?thesis by (simp add: field_simps)
qed

lemma number_for_100: "number_for 100 = Fin 100"
  using number_for_int[of 100] by simp

lemma floor_rat_numeral:
  "\<lfloor>numeral a / numeral b :: rat\<rfloor> = numeral a div numeral b"
  "\<lfloor>- (numeral a / numeral b) :: rat\<rfloor> = - numeral a div numeral b"
  "\<lfloor>1 / numeral b :: rat\<rfloor> = 1 div numeral b"
  "\<lfloor>- (1 / numeral b) :: rat\<rfloor> = - 1 div numeral b"
  using floor_divide_of_int_eq[of "numeral a" "numeral b", where ?'a = rat]
    floor_divide_of_int_eq[of "- numeral a" "numeral b", where ?'a = rat]
    floor_divide_of_int_eq[of 1 "numeral b", where ?'a = rat]
    floor_divide_of_int_eq[of "- 1" "numeral b", where ?'a = rat]
  by simp_all

text \<open>Evaluating \<open>number_for\<close> at a numeral.\<close>

lemmas dbl_eval = number_for_def nearest_def ulp_of_def binary_exponent_def exp_down.simps
  exp_up.simps round_even_def Let_def floor_rat_numeral

subsection \<open>Basket manager\<close>

lemma find_None_iff_ids: "find (\<lambda>l. bl_id l = k) b = None \<longleftrightarrow> k \<notin> bl_id ` set b"
  by (induction b) auto

lemma modify_first_ids:
  "(\<And>x. bl_id (f x) = bl_id x) \<Longrightarrow> map bl_id (modify_first p f b) = map bl_id b"
  by (induction b) auto

lemma modify_first_absent: "(\<And>x. x \<in> set b \<Longrightarrow> \<not> p x) \<Longrightarrow> modify_first p f b = b"
  by (induction b) auto

lemma addToBasket_ids:
  "map bl_id (addToBasket item b) =
     (if mi_id item \<in> bl_id ` set b then map bl_id b else map bl_id b @ [mi_id item])"
proof (cases "find (\<lambda>l. bl_id l = mi_id item) b")
  case None
  then have "mi_id item \<notin> bl_id ` set b"
    using find_None_iff_ids[of "mi_id item" b] by simp
  with None show ?thesis
    by (simp add: addToBasket_def spread_line_def)
next
  case (Some l)
  then have "mi_id item \<in> bl_id ` set b"
    using find_None_iff_ids[of "mi_id item" b] by simp
  with Some show ?thesis
    by (simp add: addToBasket_def modify_first_ids)
qed

lemma addToBasket_distinct:
  "distinct (map bl_id b) \<Longrightarrow> distinct (map bl_id (addToBasket item b))"
  by (auto simp: addToBasket_ids)

lemma removeBasketItem_distinct:
  "distinct (map bl_id b) \<Longrightarrow> distinct (map bl_id (removeBasketItem k b))"
  by (simp add: removeBasketItem_def distinct_map_filter)

lemma updateBasketItemQuantity_distinct:
  "distinct (map bl_id b) \<Longrightarrow> distinct (map bl_id (updateBasketItemQuantity k q b))"
  by (auto simp: updateBasketItemQuantity_def modify_first_ids removeBasketItem_distinct
      split: option.splits)

lemma updateBasketItemNote_distinct:
  "distinct (map bl_id b) \<Longrightarrow> distinct (map bl_id (updateBasketItemNote k n b))"
  by (auto simp: updateBasketItemNote_def modify_first_ids split: option.splits)

lemma reorder_item_ids:
  "map bl_id (reorder_item menu it b) = map bl_id b \<or>
   (\<exists>k. k \<notin> bl_id ` set b \<and> map bl_id (reorder_item menu it b) = map bl_id b @ [k])"
proof (cases "find (\<lambda>m. mi_id m = oi_id it) menu")
  case None
  then show ?thesis by (simp add: reorder_item_def)
next
  case (Some m)
  show ?thesis
  proof (cases "find (\<lambda>l. bl_id l = mi_id m) b")
    case None
    then have "mi_id m \<notin> bl_id ` set b" by (simp add: find_None_iff_ids)
    with None Some show ?thesis
      by (simp add: reorder_item_def spread_line_def)
  next
    case (Some l)
    with \<open>find (\<lambda>m. mi_id m = oi_id it) menu = Some m\<close> show ?thesis
      by (simp add: reorder_item_def modify_first_ids)
  qed
qed

lemma reorder_item_distinct:
  "distinct (map bl_id b) \<Longrightarrow> distinct (map bl_id (reorder_item menu it b))"
  using reorder_item_ids[of menu it b] by auto

lemma quickReorder_distinct:
  "distinct (map bl_id b) \<Longrightarrow> distinct (map bl_id (quickReorder menu its b))"
  unfolding quickReorder_def
  by (induction its arbitrary: b) (simp_all add: reorder_item_distinct)

lemma basket_step_distinct:
  "distinct (map bl_id b) \<Longrightarrow> distinct (map bl_id (basket_step b x))"
  by (cases x)
    (simp_all add: addToBasket_distinct updateBasketItemQuantity_distinct
      removeBasketItem_distinct updateBasketItemNote_distinct quickReorder_distinct
      clearBasket_def)

lemma basket_run_distinct:
  "distinct (map bl_id b) \<Longrightarrow> distinct (map bl_id (basket_run ops b))"
  unfolding basket_run_def
  by (induction ops arbitrary: b) (simp_all add: basket_step_distinct)

lemma modify_first_lines:
  assumes "\<And>x. bl_id (f x) = bl_id x"
  shows "lines_of k (modify_first (\<lambda>l. bl_id l = k) f b) =
         (case lines_of k b of [] \<Rightarrow> [] | x # xs \<Rightarrow> f x # xs)"
  using assms by (induction b) (simp_all add: lines_of_def)

lemma add_again:
  assumes "map bl_quantity (lines_of k b) = [q]" and "0 < q" and "mi_id item = k"
  shows "map bl_quantity (lines_of k (addToBasket item b)) = [q + 1]"
proof -
  obtain x where x: "lines_of k b = [x]" "bl_quantity x = q"
    using assms(1) by auto
  then have "x \<in> set (lines_of k b)" by simp
  then have "k \<in> bl_id ` set b" by (auto simp: lines_of_def)
  then obtain l where l: "find (\<lambda>l. bl_id l = k) b = Some l"
    using find_None_iff_ids[of k b] by auto
  have "lines_of k (addToBasket item b) = [x\<lparr>bl_quantity := or_one (bl_quantity x) + 1\<rparr>]"
    using l assms(3) x(1) by (simp add: addToBasket_def modify_first_lines)
  then show ?thesis using assms(2) x(2) by (simp add: or_one_def)
qed

lemma add_first:
  assumes "k \<notin> bl_id ` set b" and "mi_id item = k"
  shows "map bl_quantity (lines_of k (addToBasket item b)) = [1]"
proof -
  from assms have "find (\<lambda>l. bl_id l = mi_id item) b = None" by (simp add: find_None_iff_ids)
  moreover from assms(1) have "filter (\<lambda>l. bl_id l = k) b = []"
    by (auto simp: filter_empty_conv)
  ultimately show ?thesis using assms(2)
    by (simp add: addToBasket_def lines_of_def spread_line_def)
qed

lemma lines_of_other_add:
  "mi_id item \<noteq> k \<Longrightarrow> lines_of k (addToBasket item b) = lines_of k b"
proof (cases "find (\<lambda>l. bl_id l = mi_id item) b")
  case None
  assume "mi_id item \<noteq> k"
  with None show ?thesis by (simp add: addToBasket_def lines_of_def spread_line_def)
next
  case (Some l)
  assume neq: "mi_id item \<noteq> k"
  have "filter (\<lambda>l. bl_id l = k) (modify_first (\<lambda>l. bl_id l = mi_id item) f b)
      = filter (\<lambda>l. bl_id l = k) b" if "\<And>x. bl_id (f x) = bl_id x" for f
    using that neq by (induction b) auto
  with Some show ?thesis by (simp add: addToBasket_def lines_of_def)
qed

lemma add_all_count:
  assumes "map bl_quantity (lines_of k b) = [q]" and "0 < q" and "\<forall>i \<in> set items. mi_id i = k"
  shows "map bl_quantity (lines_of k (add_all items b)) = [q + int (length items)]"
  using assms
proof (induction items arbitrary: b q)
  case Nil
  then show ?case by (simp add: add_all_def)
next
  case (Cons i items)
  from Cons.prems have step: "map bl_quantity (lines_of k (addToBasket i b)) = [q + 1]"
    by (simp add: add_again)
  have "map bl_quantity (lines_of k (add_all items (addToBasket i b)))
      = [(q + 1) + int (length items)]"
    using Cons.prems by (intro Cons.IH[OF step]) auto
  then show ?case by (simp add: add_all_def)
qed

text \<open>
  C7. Adding items with one and the same id \<open>n \<ge> 1\<close> times to a basket that has no
  line for that id leaves exactly one line for the id, and its quantity is \<open>n\<close>.
  Whatever the application does to the basket, starting from the empty basket it is
  created with (adding, setting a quantity, removing, noting, clearing, re-ordering),
  no two lines of it share an id.
\<close>

theorem addToBasket_one_line_per_id:
  "(items \<noteq> [] \<and> (\<forall>i \<in> set items. mi_id i = k) \<and> k \<notin> bl_id ` set b
      \<longrightarrow> map bl_quantity (lines_of k (add_all items b)) = [int (length items)])
   \<and> distinct (map bl_id (basket_run ops []))"
proof (intro conjI impI)
  assume a: "items \<noteq> [] \<and> (\<forall>i \<in> set items. mi_id i = k) \<and> k \<notin> bl_id ` set b"
  then obtain i rest where items: "items = i # rest" by (cases items) auto
  with a have first: "map bl_quantity (lines_of k (addToBasket i b)) = [1]"
    by (simp add: add_first)
  have "map bl_quantity (lines_of k (add_all rest (addToBasket i b))) = [1 + int (length rest)]"
    using a items by (intro add_all_count[OF first]) auto
  then show "map bl_quantity (lines_of k (add_all items b)) = [int (length items)]"
    by (simp add: items add_all_def)
next
  show "distinct (map bl_id (basket_run ops []))"
    by (rule basket_run_distinct) simp
qed

theorem addToBasket_one_line_per_id_witness:
  "map bl_quantity (lines_of (IdNum 1)
       (add_all [steam_momos, steam_momos, steam_momos] (addToBasket veg_hakka_noodles []))) = [3]
   \<and> distinct (map bl_id
       (basket_run [Add steam_momos, Add veg_hakka_noodles, Add steam_momos, SetQuantity (IdNum 5) 0] []))"
  using addToBasket_one_line_per_id[of "[steam_momos, steam_momos, steam_momos]" "IdNum 1"
      "addToBasket veg_hakka_noodles []"
      "[Add steam_momos, Add veg_hakka_noodles, Add steam_momos, SetQuantity (IdNum 5) 0]"]
  by (simp add: steam_momos_def veg_hakka_noodles_def addToBasket_def spread_line_def)

text \<open>
  C10. For an id that has no line in the basket, setting a quantity (whatever the
  quantity), removing the line and setting a note all leave the basket as it is; none
  of them raises.
\<close>

theorem absent_id_noop:
  "k \<notin> bl_id ` set b \<Longrightarrow>
     updateBasketItemQuantity k q b = b \<and> removeBasketItem k b = b \<and>
     updateBasketItemNote k n b = b"
proof -
  assume a: "k \<notin> bl_id ` set b"
  then have "find (\<lambda>l. bl_id l = k) b = None" by (simp add: find_None_iff_ids)
  moreover from a have "filter (\<lambda>l. bl_id l \<noteq> k) b = b"
    by (auto simp: filter_id_conv)
  ultimately show ?thesis
    by (simp add: updateBasketItemQuantity_def removeBasketItem_def updateBasketItemNote_def)
qed

theorem absent_id_noop_witness:
  "updateBasketItemQuantity (IdNum 5) 0 (addToBasket steam_momos []) = addToBasket steam_momos []
   \<and> removeBasketItem (IdNum 5) (addToBasket steam_momos []) = addToBasket steam_momos []
   \<and> updateBasketItemNote (IdNum 5) ''no chilli'' (addToBasket steam_momos [])
       = addToBasket steam_momos []"
  using absent_id_noop[of "IdNum 5" "addToBasket steam_momos []" 0 "''no chilli''"]
  by (simp add: steam_momos_def addToBasket_def spread_line_def)

subsection \<open>Values of the host language, validation and sanitization\<close>

lemmas str_eval = trim_def trimStart_def trimEnd_def is_ws_def toLowerCase_def lower_char_def
  upper_letters_def lower_letters_def

lemmas num_eval = parseFloat_def parseFloat_str_def exponent_of_def scale10_def is_digit_def
  digits_val_def digit_val_def is_ws_def

lemma trim_Nil: "trim [] = []"
  by (simp add: trim_def trimStart_def trimEnd_def)

lemma trimEnd_Cons: "\<not> is_ws c \<Longrightarrow> trimEnd (c # cs) = c # trimEnd cs"
  by (simp add: trimEnd_def dropWhile_append)

lemma trimEnd_Nil: "trimEnd [] = []"
  by (simp add: trimEnd_def)

lemma trimStart_trimEnd: "s = [] \<or> \<not> is_ws (hd s) \<Longrightarrow> trimStart (trimEnd s) = trimEnd s"
  by (cases s) (auto simp: trimEnd_Cons trimEnd_Nil trimStart_def)

lemma trim_Uncategorized: "trim ''Uncategorized'' = ''Uncategorized''"
  by (simp add: str_eval)

lemma trimEnd_idem: "trimEnd (trimEnd s) = trimEnd s"
  by (simp add: trimEnd_def)

lemma trim_idem: "trim (trim s) = trim s"
proof -
  have "trimStart s = [] \<or> \<not> is_ws (hd (trimStart s))"
    unfolding trimStart_def using hd_dropWhile[of is_ws s] by blast
  then have "trimStart (trimEnd (trimStart s)) = trimEnd (trimStart s)"
    by (rule trimStart_trimEnd)
  then show ?thesis by (simp add: trim_def trimEnd_idem)
qed

lemma ToString_Num: "ToString v = None \<Longrightarrow> v \<noteq> JNum n"
  by auto

lemma parseFloat_None: "parseFloat v = None \<longleftrightarrow> ToString v = None"
  by (cases v) (simp_all add: parseFloat_def)

lemma parseFloat_zero: "parseFloat (JNum (Fin 0)) = Some (Fin 0)"
  by (simp add: parseFloat_def number_for_def)

lemma cents_zero: "num_div (Math_round (num_mul (Fin 0) (Fin 100))) (Fin 100) = Fin 0"
proof -
  have h: "number_for 100 = Fin 100"
    using number_for_int[of 100] by simp
  have z: "number_for 0 = Fin 0"
    by (simp add: number_for_def)
  have "\<lfloor>1 / 2 :: rat\<rfloor> = 0"
    by (simp add: floor_eq_iff)
  then show ?thesis
    by (simp add: num_mul_def num_div_def Math_round_def h z)
qed

lemma cents_NaN: "num_div (Math_round (num_mul NaN (Fin 100))) (Fin 100) = NaN"
  by (simp add: num_mul_def num_div_def Math_round_def)

lemma sanitize_steps:
  "sanitizeMenuItem item = Some r \<longleftrightarrow>
     (\<exists>i n p c.
        (if truthy (jprop (JObj item) ''id'')
         then map_option trim (ToString (jprop (JObj item) ''id'')) else Some []) = Some i
        \<and> map_option trim (ToString (js_or (jprop (JObj item) ''name'') (JStr []))) = Some n
        \<and> parseFloat (js_or (jprop (JObj item) ''price'') (JNum (Fin 0))) = Some p
        \<and> map_option trim
              (ToString (js_or (jprop (JObj item) ''category'') (JStr ''Uncategorized''))) = Some c
        \<and> r = \<lparr>s_id = i, s_name = n,
                 s_price = num_div (Math_round (num_mul p (Fin 100))) (Fin 100),
                 s_category = (if c \<noteq> [] then c else ''Uncategorized''),
                 s_favorite = truthy (jprop (JObj item) ''favorite''),
                 s_hidden = truthy (jprop (JObj item) ''hidden'')\<rparr>)"
  unfolding sanitizeMenuItem_def
  by (simp split: option.splits) blast

lemma step_id:
  "(if truthy v then map_option trim (ToString v) else Some []) = Some i \<longleftrightarrow>
     (truthy v \<longrightarrow> ToString v \<noteq> None) \<and> i = (if truthy v then trim (the (ToString v)) else [])"
  by auto

lemma step_name:
  "map_option trim (ToString (js_or v (JStr []))) = Some n \<longleftrightarrow>
     (truthy v \<longrightarrow> ToString v \<noteq> None) \<and> n = (if truthy v then trim (the (ToString v)) else [])"
  by (auto simp: js_or_def trim_Nil)

lemma step_price:
  "parseFloat (js_or v (JNum (Fin 0))) = Some p \<longleftrightarrow>
     (truthy v \<longrightarrow> ToString v \<noteq> None)
     \<and> p = (if truthy v then the (parseFloat v) else Fin 0)"
  using parseFloat_None[of v] by (auto simp: js_or_def parseFloat_zero)

lemma step_category:
  "map_option trim (ToString (js_or v (JStr ''Uncategorized''))) = Some c \<longleftrightarrow>
     (truthy v \<longrightarrow> ToString v \<noteq> None)
     \<and> c = (if truthy v then trim (the (ToString v)) else ''Uncategorized'')"
  by (auto simp: js_or_def trim_Uncategorized)

lemma sanitize_returns:
  "sanitizeMenuItem item \<noteq> None \<longleftrightarrow>
     (truthy (jprop (JObj item) ''id'') \<longrightarrow> ToString (jprop (JObj item) ''id'') \<noteq> None)
     \<and> (truthy (jprop (JObj item) ''name'') \<longrightarrow> ToString (jprop (JObj item) ''name'') \<noteq> None)
     \<and> (truthy (jprop (JObj item) ''price'') \<longrightarrow> ToString (jprop (JObj item) ''price'') \<noteq> None)
     \<and> (truthy (jprop (JObj item) ''category'') \<longrightarrow>
          ToString (jprop (JObj item) ''category'') \<noteq> None)"
proof -
  have "sanitizeMenuItem item \<noteq> None \<longleftrightarrow> (\<exists>r. sanitizeMenuItem item = Some r)"
    by auto
  then show ?thesis
    unfolding sanitize_steps step_id step_name step_price step_category by simp
qed

lemma sanitize_fields:
  assumes "sanitizeMenuItem item = Some r"
  shows "s_id r = (if truthy (jprop (JObj item) ''id'')
                   then trim (the (ToString (jprop (JObj item) ''id''))) else [])"
    and "s_name r = (if truthy (jprop (JObj item) ''name'')
                     then trim (the (ToString (jprop (JObj item) ''name''))) else [])"
    and "s_price r = (if truthy (jprop (JObj item) ''price'')
                      then num_div (Math_round (num_mul
                             (the (parseFloat (jprop (JObj item) ''price''))) (Fin 100))) (Fin 100)
                      else Fin 0)"
    and "s_category r =
           (if \<not> truthy (jprop (JObj item) ''category'')
               \<or> trim (the (ToString (jprop (JObj item) ''category''))) = []
            then ''Uncategorized'' else trim (the (ToString (jprop (JObj item) ''category''))))"
    and "s_favorite r = truthy (jprop (JObj item) ''favorite'')"
    and "s_hidden r = truthy (jprop (JObj item) ''hidden'')"
  using assms unfolding sanitize_steps step_id step_name step_price step_category
  by (auto simp: cents_zero)

lemma cents_steps:
  assumes num: "number_for x = Fin x" and bound: "\<bar>x\<bar> \<le> 2 ^ 45"
  obtains p y where "number_for (x * 100) = Fin p"
    "number_for (of_int \<lfloor>p + 1 / 2\<rfloor> / 100) = Fin y"
    "cents x = Fin y"
    "\<bar>p - x * 100\<bar> \<le> \<bar>x * 100\<bar> / 2 ^ 53 + 1 / 2 ^ 60"
    "\<bar>y - of_int \<lfloor>p + 1 / 2\<rfloor> / 100\<bar> \<le> \<bar>of_int \<lfloor>p + 1 / 2\<rfloor> / 100\<bar> / 2 ^ 53 + 1 / 2 ^ 60"
proof -
  have b100: "\<bar>x * 100\<bar> \<le> 100 * 2 ^ 45"
    using bound by (simp add: abs_mult)
  have "(100 :: rat) * 2 ^ 45 \<le> 2 ^ 1000" by simp
  with b100 have "\<bar>x * 100\<bar> \<le> 2 ^ 1000" by linarith
  from number_for_error[OF this] obtain p where
    p: "number_for (x * 100) = Fin p" "\<bar>p - x * 100\<bar> \<le> \<bar>x * 100\<bar> / 2 ^ 53 + 1 / 2 ^ 1075"
    by blast
  have perr: "\<bar>p - x * 100\<bar> \<le> \<bar>x * 100\<bar> / 2 ^ 53 + 1 / 2 ^ 60"
    using p(2) tiny by linarith
  define n where "n = \<lfloor>p + 1 / 2\<rfloor>"
  have fl: "of_int n \<le> p + 1 / 2" "p + 1 / 2 < of_int n + 1"
    unfolding n_def by linarith+
  have nb: "\<bar>of_int n :: rat\<bar> \<le> 2 ^ 53"
  proof -
    define e where "e = \<bar>x * 100\<bar> / 9007199254740992 + 1 / 1152921504606846976"
    have pe: "\<bar>p - x * 100\<bar> \<le> e" using perr by (simp add: e_def)
    have xb: "\<bar>x * 100\<bar> \<le> 3518437208883200" using b100 by simp
    have eb: "e \<le> 1" unfolding e_def using xb by linarith
    have "\<bar>of_int n :: rat\<bar> \<le> 9007199254740992" using fl pe xb eb by linarith
    then show ?thesis by simp
  qed
  then have "(of_int \<bar>n\<bar> :: rat) \<le> of_int (2 ^ 53)" by simp
  then have "\<bar>n\<bar> \<le> 2 ^ 53" by (simp only: of_int_le_iff)
  then have nn: "number_for (of_int n) = Fin (of_int n)" by (rule number_for_int)
  have "\<bar>of_int n / 100 :: rat\<bar> \<le> 2 ^ 1000"
  proof -
    have "\<bar>of_int n / 100 :: rat\<bar> \<le> \<bar>of_int n\<bar>" by (simp add: field_simps)
    also have "\<dots> \<le> 2 ^ 53" by (rule nb)
    also have "(2 :: rat) ^ 53 \<le> 2 ^ 1000" by (rule power_increasing) simp_all
    finally show ?thesis .
  qed
  from number_for_error[OF this] obtain y where
    y: "number_for (of_int n / 100) = Fin y"
      "\<bar>y - of_int n / 100\<bar> \<le> \<bar>of_int n / 100\<bar> / 2 ^ 53 + 1 / 2 ^ 1075"
    by blast
  have yerr: "\<bar>y - of_int n / 100\<bar> \<le> \<bar>of_int n / 100\<bar> / 2 ^ 53 + 1 / 2 ^ 60"
    using y(2) tiny by linarith
  have pp: "number_for p = Fin p" by (rule number_for_idem[OF p(1)])
  have "cents x = Fin y"
    by (simp add: cents_def num_mul_def num_div_def Math_round_def num number_for_100 p(1) pp
        nn y(1) n_def[symmetric])
  with p(1) y(1) perr yerr show ?thesis
    using that unfolding n_def by blast
qed

lemma cents_accuracy:
  assumes "number_for x = Fin x" "\<bar>x\<bar> \<le> 2 ^ 45"
  shows "\<exists>y n. cents x = Fin y \<and> number_for (of_int n / 100) = Fin y
           \<and> \<bar>y - x\<bar> \<le> 1 / 200 + (\<bar>x\<bar> + 1) / 2 ^ 51"
proof -
  from cents_steps[OF assms] obtain p y where s: "number_for (x * 100) = Fin p"
    "number_for (of_int \<lfloor>p + 1 / 2\<rfloor> / 100) = Fin y"
    "cents x = Fin y"
    "\<bar>p - x * 100\<bar> \<le> \<bar>x * 100\<bar> / 2 ^ 53 + 1 / 2 ^ 60"
    "\<bar>y - of_int \<lfloor>p + 1 / 2\<rfloor> / 100\<bar> \<le> \<bar>of_int \<lfloor>p + 1 / 2\<rfloor> / 100\<bar> / 2 ^ 53 + 1 / 2 ^ 60"
    by blast
  define n :: rat where "n = of_int \<lfloor>p + 1 / 2\<rfloor>"
  have fl: "n \<le> p + 1 / 2" "p + 1 / 2 < n + 1"
    unfolding n_def by linarith+
  define e1 where "e1 = \<bar>x\<bar> * 100 / 9007199254740992 + 1 / 1152921504606846976"
  define e2 where "e2 = \<bar>n\<bar> / 100 / 9007199254740992 + 1 / 1152921504606846976"
  have a1: "\<bar>p - x * 100\<bar> \<le> e1"
    using s(4) by (simp add: abs_mult e1_def)
  have a2: "\<bar>y - n / 100\<bar> \<le> e2"
    using s(5) by (simp add: n_def e2_def)
  have np: "\<bar>n - p\<bar> \<le> 1 / 2" using fl by linarith
  have pa: "\<bar>p\<bar> \<le> \<bar>x\<bar> * 100 + e1" using a1 by linarith
  have na: "\<bar>n\<bar> \<le> \<bar>x\<bar> * 100 + e1 + 1 / 2" using np pa by linarith
  have e2b: "e2 \<le> (\<bar>x\<bar> * 100 + e1 + 1 / 2) / 100 / 9007199254740992 + 1 / 1152921504606846976"
    unfolding e2_def using na by (simp add: divide_right_mono)
  have "y - x = (y - n / 100) + ((n - p) / 100 + (p - x * 100) / 100)"
    by (simp add: field_simps)
  also have "\<bar>\<dots>\<bar> \<le> \<bar>y - n / 100\<bar> + \<bar>(n - p) / 100 + (p - x * 100) / 100\<bar>"
    by (rule abs_triangle_ineq)
  also have "\<dots> \<le> \<bar>y - n / 100\<bar> + (\<bar>(n - p) / 100\<bar> + \<bar>(p - x * 100) / 100\<bar>)"
    using abs_triangle_ineq[of "(n - p) / 100" "(p - x * 100) / 100"] by simp
  finally have "\<bar>y - x\<bar> \<le> \<bar>y - n / 100\<bar> + \<bar>n - p\<bar> / 100 + \<bar>p - x * 100\<bar> / 100"
    by (simp add: abs_divide)
  then have tri: "\<bar>y - x\<bar> \<le> e2 + 1 / 200 + e1 / 100"
    using a1 a2 np by linarith
  have "\<bar>y - x\<bar> \<le> 1 / 200 + (\<bar>x\<bar> + 1) / 2251799813685248"
  proof -
    define A where "A = \<bar>x\<bar>"
    define d where "d = \<bar>y - x\<bar>"
    have "d \<le> e2 + 1 / 200 + (A * 100 / 9007199254740992 + 1 / 1152921504606846976) / 100"
      using tri by (simp only: A_def d_def e1_def)
    moreover have "e2 \<le> (A * 100 + (A * 100 / 9007199254740992 + 1 / 1152921504606846976)
        + 1 / 2) / 100 / 9007199254740992 + 1 / 1152921504606846976"
      using e2b by (simp only: A_def e1_def)
    moreover have "0 \<le> A" by (simp add: A_def)
    ultimately have "d \<le> 1 / 200 + (A + 1) / 2251799813685248"
      by (simp add: field_simps)
    then show ?thesis by (simp only: A_def d_def)
  qed
  then have "\<bar>y - x\<bar> \<le> 1 / 200 + (\<bar>x\<bar> + 1) / 2 ^ 51" by simp
  with s(2,3) show ?thesis by blast
qed

lemma cents_fixed:
  assumes "number_for (of_int c / 100) = Fin x" "\<bar>c\<bar> \<le> 10 ^ 15"
  shows "cents x = Fin x"
proof -
  have cb: "\<bar>of_int c :: rat\<bar> \<le> 10 ^ 15"
  proof -
    have "(of_int \<bar>c\<bar> :: rat) \<le> of_int (10 ^ 15)" using assms(2) by (simp only: of_int_le_iff)
    then show ?thesis by simp
  qed
  have "\<bar>of_int c / 100 :: rat\<bar> \<le> 2 ^ 1000"
  proof -
    have "\<bar>of_int c / 100 :: rat\<bar> \<le> \<bar>of_int c\<bar>" by (simp add: field_simps)
    also have "\<dots> \<le> 10 ^ 15" by (rule cb)
    also have "(10 :: rat) ^ 15 \<le> 2 ^ 1000" by simp
    finally show ?thesis .
  qed
  from number_for_error[OF this] assms(1)
  have xe: "\<bar>x - of_int c / 100\<bar> \<le> \<bar>of_int c / 100\<bar> / 2 ^ 53 + 1 / 2 ^ 1075"
    by simp
  define k :: rat where "k = of_int c"
  have kb: "\<bar>k\<bar> \<le> 1000000000000000" using cb by (simp add: k_def)
  have "\<bar>x - k / 100\<bar> \<le> \<bar>k\<bar> / 100 / 2 ^ 53 + 1 / 2 ^ 60"
    using xe tiny unfolding k_def by (simp add: abs_divide)
  then have xe': "\<bar>x - k / 100\<bar> \<le> \<bar>k\<bar> / 100 / 9007199254740992 + 1 / 1152921504606846976"
    by simp
  have num: "number_for x = Fin x" by (rule number_for_idem[OF assms(1)])
  have "\<bar>x\<bar> \<le> 35184372088832"
    using xe' kb by linarith
  then have xb: "\<bar>x\<bar> \<le> 2 ^ 45" by simp
  from cents_steps[OF num xb] obtain p y where s: "number_for (x * 100) = Fin p"
    "number_for (of_int \<lfloor>p + 1 / 2\<rfloor> / 100) = Fin y"
    "cents x = Fin y"
    "\<bar>p - x * 100\<bar> \<le> \<bar>x * 100\<bar> / 2 ^ 53 + 1 / 2 ^ 60"
    by blast
  have a1: "\<bar>p - x * 100\<bar> \<le> \<bar>x\<bar> * 100 / 9007199254740992 + 1 / 1152921504606846976"
    using s(4) by (simp add: abs_mult)
  have "k \<le> p + 1 / 2 \<and> p + 1 / 2 < k + 1"
    using a1 xe' kb by linarith
  then have near: "of_int c \<le> p + 1 / 2 \<and> p + 1 / 2 < of_int c + 1"
    by (simp add: k_def)
  then have "\<lfloor>p + 1 / 2\<rfloor> = c" by (simp add: floor_unique)
  with s(2) assms(1) have "y = x" by simp
  with s(3) show ?thesis by simp
qed

lemma parseFloat_str_Number: "parseFloat_str s = Fin x \<Longrightarrow> number_for x = Fin x"
  by (auto simp: parseFloat_str_def Let_def number_for_idem split: if_splits)

lemma parseFloat_Number: "parseFloat v = Some (Fin x) \<Longrightarrow> number_for x = Fin x"
proof (cases v)
  case (JNum n)
  assume "parseFloat v = Some (Fin x)"
  with JNum show ?thesis
    by (cases n) (auto simp: parseFloat_def number_for_idem)
qed (auto simp: parseFloat_def parseFloat_str_Number split: if_splits option.splits)

lemmas cents_eval = cents_def num_mul_def num_div_def Math_round_def

lemma cents_by_steps:
  assumes "number_for x = Fin x" "number_for (x * 100) = Fin p" "\<lfloor>p + 1 / 2\<rfloor> = n"
    "number_for (of_int n) = Fin (of_int n)" "number_for (of_int n / 100) = Fin y"
  shows "cents x = Fin y"
  using assms number_for_idem[OF assms(2)] by (simp add: cents_eval number_for_100)

lemmas parse_eval = parseFloat_str_def exponent_of_def scale10_def is_digit_def
  digits_val_def digit_val_def is_ws_def

text \<open>
  C9, as the specification states it, fails in two ways. A price that is not numeric is
  \<^verbatim>\<open>0\<close> only when it is falsy: the price \<open>"abc"\<close> is truthy, \<^verbatim>\<open>parseFloat\<close> gives \<^verbatim>\<open>NaN\<close>,
  and the sanitized price is \<^verbatim>\<open>NaN\<close> (which \<^verbatim>\<open>validateMenuItem\<close> then rejects). And the
  price is not the input rounded to two decimal places, whether the input is taken as
  the decimal that was typed or as the Number it is read as: for \<open>"1.005"\<close> the product
  with \<open>100\<close> is the Number below \<open>100.5\<close> and the price is \<open>1\<close>, not \<open>1.01\<close>; the Number
  for \<open>1.115\<close> lies below \<open>1.115\<close>, so its nearest hundredth is \<open>1.11\<close>, but its product
  with \<open>100\<close> rounds to the Number \<open>111.5\<close> and the price is the Number for \<open>1.12\<close>.
\<close>

theorem sanitizeMenuItem_price_counterexample:
  "map_option s_price (sanitizeMenuItem [(''name'', JStr ''Tea''), (''price'', JStr ''abc'')])
     = Some NaN
   \<and> map_option s_price (sanitizeMenuItem [(''name'', JStr ''Tea''), (''price'', JStr ''1.005'')])
     = Some (Fin 1)
   \<and> number_for (1115 / 1000) = Fin (5021513584518103 / 4503599627370496)
   \<and> \<bar>5021513584518103 / 4503599627370496 - 111 / 100 :: rat\<bar> < 1 / 200
   \<and> map_option s_price (sanitizeMenuItem [(''name'', JStr ''Tea''),
         (''price'', JNum (Fin (5021513584518103 / 4503599627370496)))])
     = Some (number_for (112 / 100))
   \<and> number_for (112 / 100) \<noteq> number_for (111 / 100)"
proof -
  have a: "parseFloat (JStr ''abc'') = Some NaN"
    by (simp add: parseFloat_def parse_eval)
  have "parseFloat_str ''1.005'' = number_for (1005 / 1000)"
    by (simp add: parse_eval)
  moreover have b0: "number_for (1005 / 1000) = Fin (1131529406376837 / 1125899906842624)"
    by (simp add: dbl_eval)
  ultimately have b: "parseFloat (JStr ''1.005'') = Some (Fin (1131529406376837 / 1125899906842624))"
    by (simp add: parseFloat_def)
  have one: "number_for (of_int 100) = Fin (of_int 100)" "number_for (of_int 112) = Fin (of_int 112)"
    by (rule number_for_int, simp)+
  have d: "number_for (112 / 100) = Fin (1261007895663739 / 1125899906842624)"
      "number_for (111 / 100) = Fin (4998995586381251 / 4503599627370496)"
    by (simp_all add: dbl_eval)
  have b': "cents (1131529406376837 / 1125899906842624) = Fin 1"
  proof (rule cents_by_steps)
    show "number_for (1131529406376837 / 1125899906842624)
        = Fin (1131529406376837 / 1125899906842624)"
      by (rule number_for_idem[OF b0])
    show "number_for (1131529406376837 / 1125899906842624 * 100)
        = Fin (7072058789855231 / 70368744177664)"
      by (simp add: dbl_eval)
    show "\<lfloor>7072058789855231 / 70368744177664 + 1 / 2 :: rat\<rfloor> = 100"
      by (simp add: floor_eq_iff)
    show "number_for (of_int 100) = Fin (of_int 100)"
      by (rule one)
    show "number_for (of_int 100 / 100) = Fin 1"
      using number_for_int[of 1] by simp
  qed
  have c: "number_for (1115 / 1000) = Fin (5021513584518103 / 4503599627370496)"
    by (simp add: dbl_eval)
  have c': "cents (5021513584518103 / 4503599627370496) = Fin (1261007895663739 / 1125899906842624)"
  proof (rule cents_by_steps)
    show "number_for (5021513584518103 / 4503599627370496)
        = Fin (5021513584518103 / 4503599627370496)"
      by (rule number_for_idem[OF c])
    show "number_for (5021513584518103 / 4503599627370496 * 100) = Fin (223 / 2)"
      by (simp add: dbl_eval)
    show "\<lfloor>223 / 2 + 1 / 2 :: rat\<rfloor> = 112"
      by simp
    show "number_for (of_int 112) = Fin (of_int 112)"
      by (rule one)
    show "number_for (of_int 112 / 100) = Fin (1261007895663739 / 1125899906842624)"
      using d(1) by simp
  qed
  have e: "parseFloat (JNum (Fin (5021513584518103 / 4503599627370496)))
      = Some (Fin (5021513584518103 / 4503599627370496))"
    using number_for_idem[OF c] by (simp add: parseFloat_def)
  have price: "map_option s_price (sanitizeMenuItem [(''name'', JStr ''Tea''), (''price'', v)])
      = (if truthy v then map_option (\<lambda>p. num_div (Math_round (num_mul p (Fin 100))) (Fin 100))
           (parseFloat v) else Some (Fin 0))" for v
    by (simp add: sanitizeMenuItem_def jprop_def js_or_def trim_Uncategorized parseFloat_zero
        cents_zero split: option.splits)
  show ?thesis
  proof (intro conjI)
    show "map_option s_price (sanitizeMenuItem [(''name'', JStr ''Tea''), (''price'', JStr ''abc'')])
        = Some NaN"
      unfolding price by (simp add: a cents_NaN)
    show "map_option s_price (sanitizeMenuItem [(''name'', JStr ''Tea''), (''price'', JStr ''1.005'')])
        = Some (Fin 1)"
      unfolding price using b' by (simp add: b cents_def)
    show "number_for (1115 / 1000) = Fin (5021513584518103 / 4503599627370496)"
      by (rule c)
    show "\<bar>5021513584518103 / 4503599627370496 - 111 / 100 :: rat\<bar> < 1 / 200"
      by simp
    show "map_option s_price (sanitizeMenuItem [(''name'', JStr ''Tea''),
         (''price'', JNum (Fin (5021513584518103 / 4503599627370496)))])
        = Some (number_for (112 / 100))"
      unfolding price using c' by (simp only: e d cents_def truthy.simps) simp
    show "number_for (112 / 100) \<noteq> number_for (111 / 100)"
      unfolding d by simp
  qed
qed

text \<open>
  C9, amended. \<^verbatim>\<open>sanitizeMenuItem\<close> returns a record unless one of id, name, price and
  category is truthy and has no string (an object with a property \<^verbatim>\<open>toString\<close> of its
  own), which no form field is. In the record, the id is the trimmed string of the
  input id, or empty when the input id is falsy; the name is the trimmed string of the
  input name, or empty when it is falsy; both are trimmed strings. The price is \<^verbatim>\<open>0\<close>
  when the input price is falsy (absent, \<^verbatim>\<open>null\<close>, empty, \<^verbatim>\<open>0\<close>, \<^verbatim>\<open>false\<close>, \<^verbatim>\<open>NaN\<close>),
  \<^verbatim>\<open>NaN\<close> when it is truthy and \<^verbatim>\<open>parseFloat\<close> finds no number in it, and
  \<^verbatim>\<open>Math.round(x * 100) / 100\<close> in the arithmetic of Numbers when \<^verbatim>\<open>parseFloat\<close> reads the
  Number \<open>x\<close>. For \<open>x\<close> up to \<open>2\<^sup>4\<^sup>5\<close> in size that price is the Number for a whole number
  of hundredths and differs from \<open>x\<close> by at most half a hundredth and a rounding error
  of \<open>(\<bar>x\<bar> + 1) / 2\<^sup>5\<^sup>1\<close>; and a price that is the Number for a whole number of
  hundredths is returned as it is. The category is \<open>Uncategorized\<close> when the input
  category is falsy or blank after trimming, and the trimmed string of the input
  otherwise. \<open>favorite\<close> and \<open>hidden\<close> are the truthiness of the inputs.
\<close>

theorem sanitizeMenuItem_fields:
  "(sanitizeMenuItem item \<noteq> None \<longleftrightarrow>
      (truthy (jprop (JObj item) ''id'') \<longrightarrow> ToString (jprop (JObj item) ''id'') \<noteq> None)
      \<and> (truthy (jprop (JObj item) ''name'') \<longrightarrow> ToString (jprop (JObj item) ''name'') \<noteq> None)
      \<and> (truthy (jprop (JObj item) ''price'') \<longrightarrow> ToString (jprop (JObj item) ''price'') \<noteq> None)
      \<and> (truthy (jprop (JObj item) ''category'') \<longrightarrow>
           ToString (jprop (JObj item) ''category'') \<noteq> None))
   \<and> (sanitizeMenuItem item = Some r \<longrightarrow>
        s_id r = (if truthy (jprop (JObj item) ''id'')
                  then trim (the (ToString (jprop (JObj item) ''id''))) else [])
        \<and> s_name r = (if truthy (jprop (JObj item) ''name'')
                       then trim (the (ToString (jprop (JObj item) ''name''))) else [])
        \<and> trim (s_id r) = s_id r
        \<and> trim (s_name r) = s_name r
        \<and> (\<not> truthy (jprop (JObj item) ''price'') \<longrightarrow> s_price r = Fin 0)
        \<and> (truthy (jprop (JObj item) ''price'')
             \<and> parseFloat (jprop (JObj item) ''price'') = Some NaN \<longrightarrow> s_price r = NaN)
        \<and> (\<forall>x. truthy (jprop (JObj item) ''price'')
               \<and> parseFloat (jprop (JObj item) ''price'') = Some (Fin x) \<longrightarrow>
               number_for x = Fin x \<and> s_price r = cents x)
        \<and> s_category r =
             (if \<not> truthy (jprop (JObj item) ''category'')
                 \<or> trim (the (ToString (jprop (JObj item) ''category''))) = []
              then ''Uncategorized'' else trim (the (ToString (jprop (JObj item) ''category''))))
        \<and> s_favorite r = truthy (jprop (JObj item) ''favorite'')
        \<and> s_hidden r = truthy (jprop (JObj item) ''hidden''))
   \<and> (number_for x = Fin x \<and> \<bar>x\<bar> \<le> 2 ^ 45 \<longrightarrow>
        (\<exists>y n. cents x = Fin y \<and> number_for (of_int n / 100) = Fin y
           \<and> \<bar>y - x\<bar> \<le> 1 / 200 + (\<bar>x\<bar> + 1) / 2 ^ 51))
   \<and> (number_for (of_int c / 100) = Fin x \<and> \<bar>c\<bar> \<le> 10 ^ 15 \<longrightarrow> cents x = Fin x)"
proof (intro conjI impI allI)
  assume r: "sanitizeMenuItem item = Some r"
  note f = sanitize_fields[OF r]
  show "s_id r = (if truthy (jprop (JObj item) ''id'')
                  then trim (the (ToString (jprop (JObj item) ''id''))) else [])"
    by (rule f(1))
  then show "trim (s_id r) = s_id r"
    by (simp add: trim_idem trim_Nil)
  show "s_name r = (if truthy (jprop (JObj item) ''name'')
                       then trim (the (ToString (jprop (JObj item) ''name''))) else [])"
    by (rule f(2))
  then show "trim (s_name r) = s_name r"
    by (simp add: trim_idem trim_Nil)
  show "s_category r =
             (if \<not> truthy (jprop (JObj item) ''category'')
                 \<or> trim (the (ToString (jprop (JObj item) ''category''))) = []
              then ''Uncategorized'' else trim (the (ToString (jprop (JObj item) ''category''))))"
    by (rule f(4))
  show "s_favorite r = truthy (jprop (JObj item) ''favorite'')"
    by (rule f(5))
  show "s_hidden r = truthy (jprop (JObj item) ''hidden'')"
    by (rule f(6))
  show "s_price r = Fin 0" if "\<not> truthy (jprop (JObj item) ''price'')"
    using f(3) that by simp
  show "s_price r = NaN"
    if "truthy (jprop (JObj item) ''price'') \<and> parseFloat (jprop (JObj item) ''price'') = Some NaN"
    using f(3) that by (simp add: cents_NaN)
  show "number_for x = Fin x" "s_price r = cents x"
    if "truthy (jprop (JObj item) ''price'')
        \<and> parseFloat (jprop (JObj item) ''price'') = Some (Fin x)" for x
    using f(3) that parseFloat_Number[of "jprop (JObj item) ''price''" x]
    by (simp_all add: cents_def)
next
  show "sanitizeMenuItem item \<noteq> None \<longleftrightarrow>
      (truthy (jprop (JObj item) ''id'') \<longrightarrow> ToString (jprop (JObj item) ''id'') \<noteq> None)
      \<and> (truthy (jprop (JObj item) ''name'') \<longrightarrow> ToString (jprop (JObj item) ''name'') \<noteq> None)
      \<and> (truthy (jprop (JObj item) ''price'') \<longrightarrow> ToString (jprop (JObj item) ''price'') \<noteq> None)
      \<and> (truthy (jprop (JObj item) ''category'') \<longrightarrow>
           ToString (jprop (JObj item) ''category'') \<noteq> None)"
    by (rule sanitize_returns)
next
  assume "number_for x = Fin x \<and> \<bar>x\<bar> \<le> 2 ^ 45"
  then show "\<exists>y n. cents x = Fin y \<and> number_for (of_int n / 100) = Fin y
           \<and> \<bar>y - x\<bar> \<le> 1 / 200 + (\<bar>x\<bar> + 1) / 2 ^ 51"
    using cents_accuracy by blast
next
  assume "number_for (of_int c / 100) = Fin x \<and> \<bar>c\<bar> \<le> 10 ^ 15"
  then show "cents x = Fin x"
    using cents_fixed by blast
qed

text \<open>
  A form whose fields are padded strings: the price \<open>"12.345"\<close> becomes the Number that
  prints as \<open>12.35\<close>, and sanitizing that price again returns it.
\<close>

theorem sanitizeMenuItem_fields_witness:
  "\<exists>r. sanitizeMenuItem [(''id'', JStr '' item-k1 ''), (''name'', JStr '' Tea ''),
          (''price'', JStr ''12.345''), (''category'', JStr ''  ''), (''favorite'', JStr ''on'')]
        = Some r
     \<and> s_id r = ''item-k1'' \<and> s_name r = ''Tea''
     \<and> s_price r = number_for (1235 / 100)
     \<and> (\<exists>y. s_price r = Fin y \<and> cents y = Fin y)
     \<and> s_category r = ''Uncategorized'' \<and> s_favorite r \<and> \<not> s_hidden r"
proof -
  let ?item = "[(''id'', JStr '' item-k1 ''), (''name'', JStr '' Tea ''),
      (''price'', JStr ''12.345''), (''category'', JStr ''  ''), (''favorite'', JStr ''on'')]"
  let ?x = "6949617174986097 / 562949953421312 :: rat"
  let ?y = "6952431924753203 / 562949953421312 :: rat"
  have "parseFloat_str ''12.345'' = number_for (12345 / 1000)"
    by (simp add: parse_eval)
  moreover have x: "number_for (12345 / 1000) = Fin ?x"
    by (simp add: dbl_eval)
  ultimately have p: "parseFloat (JStr ''12.345'') = Some (Fin ?x)"
    by (simp add: parseFloat_def)
  have n: "number_for (of_int 1235 / 100) = Fin ?y" "\<bar>1235 :: int\<bar> \<le> 10 ^ 15"
    by (simp_all add: dbl_eval)
  have c: "cents ?x = Fin ?y"
  proof (rule cents_by_steps)
    show "number_for ?x = Fin ?x"
      by (rule number_for_idem[OF x])
    show "number_for (?x * 100) = Fin (2469 / 2)"
      by (simp add: dbl_eval)
    show "\<lfloor>2469 / 2 + 1 / 2 :: rat\<rfloor> = 1235"
      by simp
    show "number_for (of_int 1235) = Fin (of_int 1235)"
      by (rule number_for_int) simp
    show "number_for (of_int 1235 / 100) = Fin ?y"
      by (rule n(1))
  qed
  note t = sanitizeMenuItem_fields[of ?item _ ?y 1235]
  from t have "sanitizeMenuItem ?item \<noteq> None"
    by (simp add: jprop_def)
  then obtain r where r: "sanitizeMenuItem ?item = Some r" by blast
  from sanitizeMenuItem_fields[of ?item r ?y 1235] r p n
  have "s_id r = ''item-k1''" "s_name r = ''Tea''" "s_price r = cents ?x"
    "s_category r = ''Uncategorized''" "s_favorite r" "\<not> s_hidden r" "cents ?y = Fin ?y"
    by (simp_all add: jprop_def str_eval)
  moreover have "number_for (1235 / 100) = Fin ?y"
    using n(1) by simp
  ultimately have "s_price r = number_for (1235 / 100)" "s_price r = Fin ?y \<and> cents ?y = Fin ?y"
    using c by simp_all
  then have "s_price r = number_for (1235 / 100)" "\<exists>y. s_price r = Fin y \<and> cents y = Fin y"
    by blast+
  with r \<open>s_id r = ''item-k1''\<close> \<open>s_name r = ''Tea''\<close> \<open>s_category r = ''Uncategorized''\<close>
    \<open>s_favorite r\<close> \<open>\<not> s_hidden r\<close>
  show ?thesis by blast
qed

subsection \<open>Order search\<close>

lemma filter_throwing_None: "filter_throwing p xs = None \<longleftrightarrow> (\<exists>x \<in> set xs. p x = None)"
  by (induction xs) (auto split: option.splits)

lemma filter_throwing_Some:
  "filter_throwing p xs = Some ys \<Longrightarrow> ys = filter (\<lambda>x. p x = Some True) xs"
  by (induction xs arbitrary: ys) (auto split: option.splits)

lemma lower_includes_Some:
  "lower_includes v q = Some b \<longleftrightarrow> (\<exists>s. v = JStr s \<and> b = sublist q (toLowerCase s))"
  by (cases v) (auto simp: lower_includes_def includes_str_sublist)

lemma some_name_sound:
  "some_name q items = Some b \<Longrightarrow>
     b = (\<exists>item \<in> set items. \<exists>s. jprop item ''name'' = JStr s \<and> sublist q (toLowerCase s))"
proof (induction items)
  case Nil
  then show ?case by simp
next
  case (Cons item items)
  from Cons.prems obtain name found where n: "read_prop item ''name'' = Some name"
      and f: "lower_includes name q = Some found"
      and rest: "(if found then Some True else some_name q items) = Some b"
    by (auto split: option.splits)
  from n have name: "name = jprop item ''name''"
    by (simp add: read_prop_def split: if_splits)
  from f obtain s where s: "jprop item ''name'' = JStr s" "found = sublist q (toLowerCase s)"
    unfolding name lower_includes_Some by blast
  show ?case
  proof (cases found)
    case True
    with rest s show ?thesis by auto
  next
    case False
    with rest have "some_name q items = Some b" by simp
    from Cons.IH[OF this] False s show ?thesis by auto
  qed
qed

lemma some_name_total:
  "list_all (\<lambda>item. item \<noteq> JUndefined \<and> item \<noteq> JNull \<and> is_string (jprop item ''name'')) items
     \<Longrightarrow> some_name q items \<noteq> None"
proof (induction items)
  case Nil
  then show ?case by simp
next
  case (Cons item items)
  then obtain s where "jprop item ''name'' = JStr s"
    by (cases "jprop item ''name''") (auto simp: is_string_def)
  with Cons show ?case
    by (auto simp: read_prop_def lower_includes_def)
qed

lemma order_matches_sound:
  assumes "order_matches q order = Some b"
  shows "b = search_match q order"
proof -
  from assms obtain order_id in_id where i: "read_prop order ''id'' = Some order_id"
      and l: "lower_includes order_id q = Some in_id"
    by (auto simp: order_matches_def split: option.splits)
  from i have oid: "order_id = jprop order ''id''"
    by (simp add: read_prop_def split: if_splits)
  from l obtain s where s: "jprop order ''id'' = JStr s" "in_id = sublist q (toLowerCase s)"
    unfolding oid lower_includes_Some by blast
  show ?thesis
  proof (cases in_id)
    case True
    with assms i l s show ?thesis
      by (auto simp: order_matches_def search_match_def)
  next
    case no_id: False
    let ?number = "jprop order ''orderNumber''"
    from assms i l no_id obtain in_number where
      n: "(if truthy ?number
           then map_option (\<lambda>s. includes_str (toLowerCase (padStart4 s)) q) (ToString ?number)
           else Some False) = Some in_number"
      by (auto simp: order_matches_def split: option.splits)
    then have num: "in_number \<longleftrightarrow> truthy ?number \<and>
        (\<exists>s. ToString ?number = Some s \<and> sublist q (toLowerCase (padStart4 s)))"
      by (auto simp: includes_str_sublist split: if_splits)
    show ?thesis
    proof (cases in_number)
      case True
      with assms i l no_id n num show ?thesis
        by (auto simp: order_matches_def search_match_def)
    next
      case no_number: False
      show ?thesis
      proof (cases "truthy (jprop order ''items'')")
        case True
        with assms i l no_id n no_number obtain items where
          it: "jprop order ''items'' = JArr items" "some_name q items = Some b"
          by (auto simp: order_matches_def split: option.splits jsval.splits)
        from some_name_sound[OF it(2)] it(1) s no_id no_number num show ?thesis
          by (auto simp: search_match_def)
      next
        case False
        with assms i l no_id n no_number have "b = False"
          by (auto simp: order_matches_def split: option.splits)
        moreover from False have "\<nexists>items. jprop order ''items'' = JArr items"
          by auto
        ultimately show ?thesis
          using s no_id no_number num by (auto simp: search_match_def)
      qed
    qed
  qed
qed

lemma order_matches_total:
  assumes "searchable order"
  shows "order_matches q order \<noteq> None"
proof -
  from assms obtain s where s: "jprop order ''id'' = JStr s"
    by (cases "jprop order ''id''") (auto simp: searchable_def is_string_def)
  from assms have r: "read_prop order ''id'' = Some (JStr s)"
    by (simp add: searchable_def read_prop_def s)
  have n: "truthy (jprop order ''orderNumber'') \<Longrightarrow>
      \<exists>t. ToString (jprop order ''orderNumber'') = Some t"
    using assms by (auto simp: searchable_def)
  have it: "truthy (jprop order ''items'') \<Longrightarrow>
      \<exists>items. jprop order ''items'' = JArr items \<and> some_name q items \<noteq> None"
    using assms some_name_total[of _ q]
    by (auto simp: searchable_def split: jsval.splits)
  show ?thesis
    using r n it
    by (auto simp: order_matches_def lower_includes_def split: option.splits)
qed

lemma order_json_searchable: "searchable (order_json order)"
  by (simp add: searchable_def order_json_def order_item_json_def jprop_def is_string_def
      list_all_iff)

lemma spec_order_searchable: "searchable spec_order"
  by (simp add: searchable_def spec_order_def jprop_def is_string_def)

text \<open>
  C8, as the specification states it, fails: the code trims the lowercased query
  before it searches, so the query \<open>"rice "\<close> (with a trailing blank) returns the order
  whose item is "Veg Fried Rice", although the lowercased query itself occurs neither
  in the id nor in an item name, and the order has no number.
\<close>

theorem filterOrders_untrimmed_counterexample:
  "filterOrders [spec_order] ''rice '' = Some [spec_order]
   \<and> \<not> claimed_match ''rice '' spec_order"
proof -
  have q: "trim (toLowerCase ''rice '') = ''rice''" "trim ''rice '' \<noteq> []"
    by (simp_all add: str_eval)
  have "order_matches ''rice'' spec_order = Some True"
    by (simp add: order_matches_def spec_order_def read_prop_def jprop_def lower_includes_def
        str_eval)
  then have "filterOrders [spec_order] ''rice '' = Some [spec_order]"
    by (simp add: filterOrders_def q)
  moreover have "\<not> claimed_match ''rice '' spec_order"
    by (simp add: claimed_match_def spec_order_def jprop_def includes_str_sublist[symmetric]
        str_eval padStart4_def)
  ultimately show ?thesis by simp
qed

text \<open>
  C8, amended. A query that is empty or only white space returns all orders. Otherwise
  let \<open>q\<close> be the query lowercased and then trimmed. For every list of orders that the
  search can read (each order has a string id, a number with a string or none, and
  items with string names or none, as every order that \<^verbatim>\<open>createOrder\<close> writes has), the
  result is the orders, in their order, for which \<open>q\<close> occurs in the lowercased id, in
  the lowercased order number padded with zeros to four characters (when the order
  number is truthy) or in the lowercased name of an item. For every list of orders,
  whenever the search returns, it returns exactly these orders; and it throws exactly
  when its callback throws on one of the orders.
\<close>

theorem filterOrders_search:
  "(trim query = [] \<longrightarrow> filterOrders orders query = Some orders)
   \<and> (trim query \<noteq> [] \<and> (\<forall>order \<in> set orders. searchable order) \<longrightarrow>
        filterOrders orders query
          = Some (filter (search_match (trim (toLowerCase query))) orders))
   \<and> (trim query \<noteq> [] \<and> filterOrders orders query = Some found \<longrightarrow>
        found = filter (search_match (trim (toLowerCase query))) orders)
   \<and> (trim query \<noteq> [] \<longrightarrow>
        (filterOrders orders query = None \<longleftrightarrow>
           (\<exists>order \<in> set orders. order_matches (trim (toLowerCase query)) order = None)))
   \<and> searchable (order_json created)"
proof (intro conjI impI)
  show "filterOrders orders query = Some orders" if "trim query = []"
    using that by (simp add: filterOrders_def)
  have ne: "query \<noteq> []" if "trim query \<noteq> []"
    using that trim_Nil by auto
  let ?q = "trim (toLowerCase query)"
  have sound: "filter (\<lambda>order. order_matches ?q order = Some True) orders
      = filter (search_match ?q) orders" if "\<forall>order \<in> set orders. order_matches ?q order \<noteq> None"
  proof (rule filter_cong[OF refl])
    fix order
    assume "order \<in> set orders"
    with that obtain b where b: "order_matches ?q order = Some b" by auto
    from order_matches_sound[OF b] b
    show "(order_matches ?q order = Some True) = search_match ?q order" by auto
  qed
  show "found = filter (search_match ?q) orders"
    if h: "trim query \<noteq> [] \<and> filterOrders orders query = Some found"
  proof -
    from h have t: "trim query \<noteq> []" and f0: "filterOrders orders query = Some found"
      by simp_all
    from f0 t ne[OF t] have f: "filter_throwing (order_matches ?q) orders = Some found"
      by (simp add: filterOrders_def)
    then have "filter_throwing (order_matches ?q) orders \<noteq> None" by simp
    then have "\<forall>order \<in> set orders. order_matches ?q order \<noteq> None"
      unfolding filter_throwing_None by simp
    from sound[OF this] filter_throwing_Some[OF f] show ?thesis by simp
  qed
  show "filterOrders orders query = Some (filter (search_match ?q) orders)"
    if h: "trim query \<noteq> [] \<and> (\<forall>order \<in> set orders. searchable order)"
  proof -
    from h have all: "\<forall>order \<in> set orders. order_matches ?q order \<noteq> None"
      using order_matches_total by blast
    then have "filter_throwing (order_matches ?q) orders \<noteq> None"
      unfolding filter_throwing_None by blast
    then obtain ys where ys: "filter_throwing (order_matches ?q) orders = Some ys" by blast
    from h have t: "trim query \<noteq> []" by simp
    from filter_throwing_Some[OF ys] sound[OF all] ys t ne[OF t] show ?thesis
      by (simp add: filterOrders_def)
  qed
  show "filterOrders orders query = None \<longleftrightarrow>
      (\<exists>order \<in> set orders. order_matches ?q order = None)" if "trim query \<noteq> []"
    using that ne by (simp add: filterOrders_def filter_throwing_None)
  show "searchable (order_json created)"
    by (rule order_json_searchable)
qed

text \<open>
  The examples of the specification: the queries \<open>abc123\<close> and \<open>fried\<close> find the order
  \<open>ord-abc123\<close> with the item "Veg Fried Rice", the query \<open>pasta\<close> does not, and a blank
  query returns the list as it is.
\<close>

theorem filterOrders_search_witness:
  "filterOrders [spec_order] ''abc123'' = Some [spec_order]
   \<and> filterOrders [spec_order] ''fried'' = Some [spec_order]
   \<and> filterOrders [spec_order] ''pasta'' = Some []
   \<and> filterOrders [spec_order] ''  '' = Some [spec_order]"
proof -
  have s: "\<forall>order \<in> set [spec_order]. searchable order"
    by (simp add: spec_order_searchable)
  have m: "search_match ''abc123'' spec_order" "search_match ''fried'' spec_order"
      "\<not> search_match ''pasta'' spec_order"
    by (simp_all add: search_match_def spec_order_def jprop_def includes_str_sublist[symmetric]
        str_eval)
  have q: "trim (toLowerCase ''abc123'') = ''abc123''" "trim ''abc123'' \<noteq> []"
      "trim (toLowerCase ''fried'') = ''fried''" "trim ''fried'' \<noteq> []"
      "trim (toLowerCase ''pasta'') = ''pasta''" "trim ''pasta'' \<noteq> []" "trim ''  '' = []"
    by (simp_all add: str_eval)
  from filterOrders_search[of "''abc123''" "[spec_order]"] s q m
  have "filterOrders [spec_order] ''abc123'' = Some [spec_order]" by simp
  moreover from filterOrders_search[of "''fried''" "[spec_order]"] s q m
  have "filterOrders [spec_order] ''fried'' = Some [spec_order]" by simp
  moreover from filterOrders_search[of "''pasta''" "[spec_order]"] s q m
  have "filterOrders [spec_order] ''pasta'' = Some []" by simp
  moreover from filterOrders_search[of "''  ''" "[spec_order]"] q
  have "filterOrders [spec_order] ''  '' = Some [spec_order]" by simp
  ultimately show ?thesis by simp
qed

text \<open>
  The search is not limited to ASCII: a query that is a no-break space is blank, and
  a query ending in \<open>U+00E9\<close> and a no-break space finds the name that ends in
  \<open>U+00C9\<close>. An order whose item has no name makes the search throw, unless the query
  already occurs in its id.
\<close>

lemma filterOrders_latin1:
  "filterOrders [spec_order, nameless_item_order] [CHR 0xA0] = Some [spec_order, nameless_item_order]"
  "filterOrders [cafe_order] (''caf'' @ [CHR 0xE9, CHR 0xA0]) = Some [cafe_order]"
  by (simp_all add: filterOrders_def order_matches_def cafe_order_def read_prop_def jprop_def
      lower_includes_def str_eval)

lemma filterOrders_throws:
  "filterOrders [spec_order, nameless_item_order] ''pasta'' = None"
  "filterOrders [spec_order, nameless_item_order] ''ORD-X'' = Some [nameless_item_order]"
  by (simp_all add: filterOrders_def order_matches_def spec_order_def nameless_item_order_def
      read_prop_def jprop_def lower_includes_def str_eval)

subsection \<open>Order creation\<close>















text \<open>
  With prices that are not whole numbers the sum is rounded: three lines at \<open>0.1\<close>,
  \<open>0.2\<close> and \<open>0.3\<close> add up to the Number above \<open>0.6\<close>, which prints as
  \<open>0.6000000000000001\<close>.
\<close>

lemma items_total_rounds:
  "items_total
     [\<lparr>oi_id = IdNum 1, oi_name = ''a'', oi_price = 1 / 10, oi_quantity = 1, oi_note = []\<rparr>,
      \<lparr>oi_id = IdNum 2, oi_name = ''b'', oi_price = 2 / 10, oi_quantity = 1, oi_note = []\<rparr>,
      \<lparr>oi_id = IdNum 3, oi_name = ''c'', oi_price = 3 / 10, oi_quantity = 1, oi_note = []\<rparr>]
   = Fin (5404319552844596 / 9007199254740992)
   \<and> number_for (6 / 10) = Fin (5404319552844595 / 9007199254740992)"
proof -
  have n: "number_for 0 = Fin 0" "number_for 1 = Fin 1"
    using number_for_int[of 0] number_for_int[of 1] by simp_all
  have a: "number_for (1 / 10) = Fin (3602879701896397 / 36028797018963968)"
      "number_for (2 / 10) = Fin (3602879701896397 / 18014398509481984)"
      "number_for (3 / 10) = Fin (5404319552844595 / 18014398509481984)"
      "number_for (6 / 10) = Fin (5404319552844595 / 9007199254740992)"
    by (simp_all add: dbl_eval)
  have i: "number_for (3602879701896397 / 36028797018963968)
        = Fin (3602879701896397 / 36028797018963968)"
      "number_for (3602879701896397 / 18014398509481984)
        = Fin (3602879701896397 / 18014398509481984)"
      "number_for (5404319552844595 / 18014398509481984)
        = Fin (5404319552844595 / 18014398509481984)"
    using a(1,2,3)[THEN number_for_idem] by simp_all
  have s1: "number_for (3602879701896397 / 36028797018963968 + 3602879701896397 / 18014398509481984)
      = Fin (1351079888211149 / 4503599627370496)"
    by (simp add: dbl_eval)
  have s2: "number_for (1351079888211149 / 4503599627370496 + 5404319552844595 / 18014398509481984)
      = Fin (5404319552844596 / 9007199254740992)"
    by (simp add: dbl_eval)
  have m: "num_mul (Fin (1 / 10)) (Fin 1) = Fin (3602879701896397 / 36028797018963968)"
      "num_mul (Fin (2 / 10)) (Fin 1) = Fin (3602879701896397 / 18014398509481984)"
      "num_mul (Fin (3 / 10)) (Fin 1) = Fin (5404319552844595 / 18014398509481984)"
    using a i n by (simp_all add: num_mul_def)
  have "num_add (Fin 0) (Fin (3602879701896397 / 36028797018963968))
      = Fin (3602879701896397 / 36028797018963968)"
    using i n by (simp add: num_add_def)
  moreover have "num_add (Fin (3602879701896397 / 36028797018963968))
        (Fin (3602879701896397 / 18014398509481984))
      = Fin (1351079888211149 / 4503599627370496)"
    using i s1 by (simp add: num_add_def)
  moreover have "num_add (Fin (1351079888211149 / 4503599627370496))
        (Fin (5404319552844595 / 18014398509481984))
      = Fin (5404319552844596 / 9007199254740992)"
    using i s2 number_for_idem[OF s1] by (simp add: num_add_def)
  ultimately show ?thesis
    using m a(4) by (simp add: items_total_def)
qed

lemma map_of_store_put: "map_of (store_put k v s) = (map_of s)(k \<mapsto> v)"
  by (induction s) (auto simp: fun_eq_iff)

lemma store_get_put: "store_get k' (store_put k v s) = (if k' = k then Some v else store_get k' s)"
  by (simp add: store_get_def map_of_store_put)






lemma key_of_order_json: "key_of (order_json order) = Some (KStr (ord_id order))"
  by (simp add: key_of_def order_json_def jprop_def key_of_val_def)


text \<open>
  C3. On an empty basket \<^verbatim>\<open>createOrder\<close> reports the empty basket and returns the state
  it was given: the orders store, the order-number counter and the usage counters are
  unchanged.
\<close>

theorem createOrder_empty_basket:
  "st_basket st = [] \<Longrightarrow> createOrder rnd now st = (EmptyBasketError, st)"
  by (simp add: createOrder_def)



theorem createOrder_empty_basket_witness:
  "createOrder ''k3x9'' ''2024-05-01T10:00:00.000Z'' (open_shop\<lparr>st_basket := []\<rparr>)
     = (EmptyBasketError, open_shop\<lparr>st_basket := []\<rparr>)"
  using createOrder_empty_basket[of "open_shop\<lparr>st_basket := []\<rparr>" "''k3x9''"
      "''2024-05-01T10:00:00.000Z''"]
  by simp

subsection \<open>Status changes\<close>

lemma idx_flow:
  "indexOf flow x =
     (if x = ''Yet to prepare'' then 0 else if x = ''Preparing'' then 1
      else if x = ''Prepared'' then 2 else if x = ''Satisfied'' then 3 else - 1)"
  by (simp add: indexOf_def flow_def eq_commute[of _ x])

lemma flow_cases:
  "cur \<in> set flow \<longleftrightarrow>
     cur = ''Yet to prepare'' \<or> cur = ''Preparing'' \<or> cur = ''Prepared'' \<or> cur = ''Satisfied''"
  by (simp add: flow_def)

lemma forward_iff:
  assumes "cur \<in> set flow"
  shows "canMoveForward cur nxt \<longleftrightarrow> (cur, nxt) \<in> set forward_steps"
proof -
  consider "cur = ''Yet to prepare''" | "cur = ''Preparing''" | "cur = ''Prepared''"
    | "cur = ''Satisfied''"
    using assms flow_cases by blast
  then show ?thesis
  proof cases
    case 1
    then show ?thesis
      by (simp add: canMoveForward_def forward_steps_def idx_flow)
  next
    case 2
    then show ?thesis
      by (simp add: canMoveForward_def forward_steps_def idx_flow)
  next
    case 3
    then show ?thesis
      by (simp add: canMoveForward_def forward_steps_def idx_flow)
  next
    case 4
    then show ?thesis
      by (simp add: canMoveForward_def forward_steps_def idx_flow)
  qed
qed

lemma backward_iff:
  assumes "cur \<in> set flow" and "nxt \<in> set flow"
  shows "canMoveBackward cur nxt \<longleftrightarrow> (cur, nxt) \<in> set backward_steps"
proof -
  consider "cur = ''Yet to prepare''" | "cur = ''Preparing''" | "cur = ''Prepared''"
    | "cur = ''Satisfied''"
    using assms(1) flow_cases by blast
  then show ?thesis
  proof cases
    case 1
    then show ?thesis
      using assms(2) flow_cases[of nxt]
      by (auto simp: canMoveBackward_def backward_steps_def idx_flow)
  next
    case 2
    then show ?thesis
      using assms(2) flow_cases[of nxt]
      by (auto simp: canMoveBackward_def backward_steps_def idx_flow)
  next
    case 3
    then show ?thesis
      using assms(2) flow_cases[of nxt]
      by (auto simp: canMoveBackward_def backward_steps_def idx_flow)
  next
    case 4
    then show ?thesis
      using assms(2) flow_cases[of nxt]
      by (auto simp: canMoveBackward_def backward_steps_def idx_flow)
  qed
qed

lemma forward_not_same: "(s, s) \<notin> set forward_steps" and backward_not_same: "(s, s) \<notin> set backward_steps"
  by (auto simp: forward_steps_def backward_steps_def)

lemma key_of_object: "key_of stored = Some k \<Longrightarrow> \<exists>fs. stored = JObj fs"
  by (cases stored) (simp_all add: key_of_def jprop_def key_of_val_def)

lemma map_of_set_field:
  "map_of (map (\<lambda>(k', v'). if k' = k then (k', v) else (k', v')) fs) =
     (\<lambda>x. if x = k \<and> map_of fs k \<noteq> None then Some v else map_of fs x)"
  by (induction fs) (auto simp: fun_eq_iff)

lemma jprop_set_prop:
  "jprop (set_prop k v (JObj fs)) x = (if x = k then v else jprop (JObj fs) x)"
  by (auto simp: jprop_def map_of_set_field split: option.splits)

lemma key_of_set_status: "key_of (set_prop ''status'' v (JObj fs)) = key_of (JObj fs)"
  by (simp only: key_of_def jprop_set_prop) simp

lemma updateOrderStatus_existing:
  assumes "st_db st" and "store_get (KStr orderId) (st_orders st) = Some stored"
    and "key_of stored = Some (KStr orderId)"
  shows "updateOrderStatus orderId status st =
           Inr (st\<lparr>st_orders := store_put (KStr orderId) (set_prop ''status'' status stored) (st_orders st)\<rparr>)"
    and "jprop (set_prop ''status'' status stored) ''status'' = status"
proof -
  from assms(3) obtain fs where fs: "stored = JObj fs"
    using key_of_object by blast
  have "key_of (set_prop ''status'' status stored) = Some (KStr orderId)"
    using assms(3) by (simp only: fs key_of_set_status)
  with assms(1,2) show "updateOrderStatus orderId status st =
           Inr (st\<lparr>st_orders := store_put (KStr orderId) (set_prop ''status'' status stored) (st_orders st)\<rparr>)"
    by (simp add: updateOrderStatus_def put_record_def)
  show "jprop (set_prop ''status'' status stored) ''status'' = status"
    by (simp only: fs jprop_set_prop) simp
qed

text \<open>
  C2, amended. For an order whose status is one of the four and a request for one of
  the four (the buttons of a card): a click calls the status change exactly for the
  immediate next status, does nothing at all for the order's own status and shows the
  toast "Invalid status transition" otherwise; a long press opens the confirm dialog
  exactly for the immediate previous status and shows the toast otherwise (also for the
  order's own status); the click that ends a confirmed long press is swallowed. A toast
  leaves the state as it is, and so does a dialog that is not confirmed; a confirmed
  dialog does what the status change does. \<^verbatim>\<open>updateOrderStatus\<close> itself, for an order
  that is in the store, writes whatever status it is given.
\<close>

theorem status_change_transitions:
  "(ord_status order \<in> set flow \<and> newStatus \<in> set flow \<longrightarrow>
      click_handler order newStatus False =
        (if (ord_status order, newStatus) \<in> set forward_steps
           then ([StatusChange (ord_id order) newStatus], False)
         else if newStatus = ord_status order then ([], False)
         else ([Toast ''Invalid status transition''], False))
      \<and> long_press_handler order newStatus pressed =
        (if (ord_status order, newStatus) \<in> set backward_steps
           then ([Confirm ''Move backward?'' (ord_id order) newStatus], True)
         else ([Toast ''Invalid status transition''], pressed)))
   \<and> click_handler order newStatus True = ([], False)
   \<and> run_effect confirmed (Toast m) st = st
   \<and> run_effect False (Confirm m orderId newStatus) st = st
   \<and> run_effect True (Confirm m orderId newStatus) st = run_effect confirmed (StatusChange orderId newStatus) st
   \<and> (st_db st \<and> store_get (KStr orderId) (st_orders st) = Some stored
        \<and> key_of stored = Some (KStr orderId) \<longrightarrow>
        updateOrderStatus orderId status st =
          Inr (st\<lparr>st_orders := store_put (KStr orderId) (set_prop ''status'' status stored) (st_orders st)\<rparr>)
        \<and> jprop (set_prop ''status'' status stored) ''status'' = status)"
proof (intro conjI impI)
  assume ff: "ord_status order \<in> set flow \<and> newStatus \<in> set flow"
  then have f: "ord_status order \<in> set flow" and g: "newStatus \<in> set flow"
    by simp_all
  show "click_handler order newStatus False =
        (if (ord_status order, newStatus) \<in> set forward_steps
           then ([StatusChange (ord_id order) newStatus], False)
         else if newStatus = ord_status order then ([], False)
         else ([Toast ''Invalid status transition''], False))"
    using forward_iff[OF f, of newStatus] forward_not_same[of "ord_status order"]
    by (auto simp: click_handler_def)
  show "long_press_handler order newStatus pressed =
        (if (ord_status order, newStatus) \<in> set backward_steps
           then ([Confirm ''Move backward?'' (ord_id order) newStatus], True)
         else ([Toast ''Invalid status transition''], pressed))"
    using backward_iff[OF f g] backward_not_same[of "ord_status order"]
    by (auto simp: long_press_handler_def)
next
  show "click_handler order newStatus True = ([], False)"
    by (simp add: click_handler_def)
  show "run_effect confirmed (Toast m) st = st" by simp
  show "run_effect False (Confirm m orderId newStatus) st = st" by simp
  show "run_effect True (Confirm m orderId newStatus) st = run_effect confirmed (StatusChange orderId newStatus) st"
    by simp
next
  assume a: "st_db st \<and> store_get (KStr orderId) (st_orders st) = Some stored
        \<and> key_of stored = Some (KStr orderId)"
  then show "updateOrderStatus orderId status st =
          Inr (st\<lparr>st_orders := store_put (KStr orderId) (set_prop ''status'' status stored) (st_orders st)\<rparr>)"
    using updateOrderStatus_existing(1) by blast
  from a show "jprop (set_prop ''status'' status stored) ''status'' = status"
    using updateOrderStatus_existing(2) by blast
qed

text \<open>
  C2, as the specification states it, fails for a request of the order's own status by
  a click: the handler returns at once, and nothing is reported.
\<close>

theorem same_state_click_counterexample:
  "click_handler fried_rice_order (ord_status fried_rice_order) False = ([], False)
   \<and> Toast ''Invalid status transition'' \<notin>
       set (fst (click_handler fried_rice_order (ord_status fried_rice_order) False))"
  by (simp add: click_handler_def)

text \<open>
  An order whose status is not in the flow (a record of an import) is outside the
  state machine: a click on the first status is a forward step for it.
\<close>

lemma off_flow_status_restarts:
  "ord_status order \<notin> set flow \<Longrightarrow>
     click_handler order ''Yet to prepare'' False =
       ([StatusChange (ord_id order) ''Yet to prepare''], False)"
  by (auto simp: click_handler_def canMoveForward_def idx_flow flow_cases)

theorem status_change_transitions_witness:
  "click_handler fried_rice_order ''Preparing'' False
     = ([StatusChange ''ord-abc123'' ''Preparing''], False)
   \<and> long_press_handler fried_rice_order ''Preparing'' False
     = ([Toast ''Invalid status transition''], False)
   \<and> (\<exists>st'. updateOrderStatus ''ord-abc123'' (JStr ''Satisfied'') shop_with_order = Inr st'
        \<and> map_option (\<lambda>r. jprop r ''status'') (store_get (KStr ''ord-abc123'') (st_orders st'))
            = Some (JStr ''Satisfied''))"
proof -
  let ?stored = "order_json fried_rice_order"
  have h1: "ord_status fried_rice_order \<in> set flow \<and> ''Preparing'' \<in> set flow"
    by (simp add: fried_rice_order_def flow_def)
  have h2: "st_db shop_with_order
      \<and> store_get (KStr ''ord-abc123'') (st_orders shop_with_order) = Some ?stored
      \<and> key_of ?stored = Some (KStr ''ord-abc123'')"
    by (simp add: shop_with_order_def store_get_def key_of_order_json fried_rice_order_def)
  note t = status_change_transitions[of fried_rice_order "''Preparing''" False True "''x''"
      shop_with_order "''ord-abc123''" ?stored "JStr ''Satisfied''"]
  from t h1 have a: "click_handler fried_rice_order ''Preparing'' False =
        (if (ord_status fried_rice_order, ''Preparing'') \<in> set forward_steps
           then ([StatusChange (ord_id fried_rice_order) ''Preparing''], False)
         else if ''Preparing'' = ord_status fried_rice_order then ([], False)
         else ([Toast ''Invalid status transition''], False))"
    and b: "long_press_handler fried_rice_order ''Preparing'' False =
        (if (ord_status fried_rice_order, ''Preparing'') \<in> set backward_steps
           then ([Confirm ''Move backward?'' (ord_id fried_rice_order) ''Preparing''], True)
         else ([Toast ''Invalid status transition''], False))"
    by blast+
  from t h2 have c: "updateOrderStatus ''ord-abc123'' (JStr ''Satisfied'') shop_with_order =
          Inr (shop_with_order\<lparr>st_orders := store_put (KStr ''ord-abc123'')
                 (set_prop ''status'' (JStr ''Satisfied'') ?stored) (st_orders shop_with_order)\<rparr>)"
    and d: "jprop (set_prop ''status'' (JStr ''Satisfied'') ?stored) ''status'' = JStr ''Satisfied''"
    by blast+
  have "click_handler fried_rice_order ''Preparing'' False
     = ([StatusChange ''ord-abc123'' ''Preparing''], False)"
    using a by (simp add: fried_rice_order_def forward_steps_def)
  moreover have "long_press_handler fried_rice_order ''Preparing'' False
     = ([Toast ''Invalid status transition''], False)"
    using b by (simp add: fried_rice_order_def backward_steps_def)
  moreover have "\<exists>st'. updateOrderStatus ''ord-abc123'' (JStr ''Satisfied'') shop_with_order = Inr st'
        \<and> map_option (\<lambda>r. jprop r ''status'') (store_get (KStr ''ord-abc123'') (st_orders st'))
            = Some (JStr ''Satisfied'')"
    using c d by (simp add: store_get_put)
  ultimately show ?thesis by blast
qed

subsection \<open>Rollover and archival\<close>

lemma split_colon_nonempty: "split_colon s \<noteq> []"
  by (induction s) (auto split: list.splits)

lemma split_colon_plain: "CHR '':'' \<notin> set a \<Longrightarrow> split_colon a = [a]"
  by (induction a) auto

lemma split_colon_two:
  "CHR '':'' \<notin> set a \<Longrightarrow> CHR '':'' \<notin> set b \<Longrightarrow> split_colon (a @ CHR '':'' # b) = [a, b]"
  by (induction a) (auto simp: split_colon_plain)

lemma parseInt10_digits:
  assumes "ds \<noteq> []" and "\<forall>c \<in> set ds. is_digit c"
  shows "parseInt10 ds = Some (int (digits_val ds))"
proof -
  obtain c cs where c: "ds = c # cs" using assms(1) by (cases ds) auto
  with assms(2) have d: "is_digit c" and all: "takeWhile is_digit cs = cs"
    by (simp_all add: takeWhile_eq_all_conv)
  show ?thesis
    using digit_not_ws[OF d] d
    by (simp add: parseInt10_def c Let_def all)
qed

lemma digit_not_colon: "is_digit c \<Longrightarrow> c \<noteq> CHR '':''"
  by (auto simp: is_digit_def)

lemma afterClosing_clock:
  assumes "hh \<noteq> []" "mm \<noteq> []" "\<forall>c \<in> set hh. is_digit c" "\<forall>c \<in> set mm. is_digit c"
    and "local_or ls ''closingTime'' ''23:00'' = hh @ CHR '':'' # mm"
  shows "afterClosing clk ls \<longleftrightarrow>
     digits_val hh < now_hours clk \<or>
     (now_hours clk = digits_val hh \<and> digits_val mm \<le> now_minutes clk)"
proof -
  have "CHR '':'' \<notin> set hh" "CHR '':'' \<notin> set mm"
    using assms(3,4) digit_not_colon by blast+
  then have sp: "split_colon (hh @ CHR '':'' # mm) = [hh, mm]"
    by (rule split_colon_two)
  show ?thesis
    using assms(1,2)
    by (simp add: afterClosing_def assms(5) sp Let_def str_or_def parseInt10_digits[OF assms(1,3)]
        parseInt10_digits[OF assms(2,4)] num_gt_def num_eq_def num_ge_def)
qed


lemma isValidOrder_key: "isValidOrder v \<Longrightarrow> \<exists>k. key_of v = Some k"
  by (cases "jprop v ''id''") (simp_all add: isValidOrder_def key_of_def key_of_val_def is_string_def)

lemma put_each_ok: "\<forall>v \<in> set vs. \<exists>k. key_of v = Some k \<Longrightarrow> fst (put_each vs s) = None"
  by (induction vs arbitrary: s) (auto simp: put_record_def)

lemma closeShopNow_ok:
  assumes "st_db st"
  shows "fst (closeShopNow clk st) = None"
    and "st_local (snd (closeShopNow clk st)) = (st_local st)(''lastResetDate'' \<mapsto> now_iso_date clk)"
    and "st_orders (snd (closeShopNow clk st)) = []"
    and "st_db (snd (closeShopNow clk st))"
proof -
  define orders where "orders = filter isValidOrder (store_getAll (st_orders st))"
  have g: "getAllOrders st = Inr orders"
    using assms by (simp add: getAllOrders_def orders_def)
  have "fst (put_each orders (st_archive st)) = None"
    by (rule put_each_ok) (simp add: orders_def isValidOrder_key)
  then obtain a where a: "put_each orders (st_archive st) = (None, a)"
    by (cases "put_each orders (st_archive st)") auto
  show "fst (closeShopNow clk st) = None"
      "st_local (snd (closeShopNow clk st)) = (st_local st)(''lastResetDate'' \<mapsto> now_iso_date clk)"
      "st_orders (snd (closeShopNow clk st)) = []"
      "st_db (snd (closeShopNow clk st))"
    using assms by (simp_all add: closeShopNow_def g saveArchive_def saveOrders_def a)
qed


lemma maybeDailyReset_cases:
  "maybeDailyReset clk st =
     (if local_or (st_local st) ''lastResetDate'' [] \<noteq> now_iso_date clk \<or> afterClosing clk (st_local st)
      then (Triggered (fst (closeShopNow clk st)), snd (closeShopNow clk st))
      else (NotTriggered, st))"
  by (simp add: maybeDailyReset_def Let_def split: prod.splits)

lemma marker_after_close:
  "st_db st \<Longrightarrow>
     local_or (st_local (snd (closeShopNow clk st))) ''lastResetDate'' [] = now_iso_date clk"
  by (simp add: closeShopNow_ok(2) local_or_def)



lemma default_closing:
  "local_or (st_local shop_with_order) ''closingTime'' ''23:00'' = ''23'' @ CHR '':'' # ''00''"
  "''23'' \<noteq> [] \<and> ''00'' \<noteq> [] \<and> (\<forall>c \<in> set ''23''. is_digit c) \<and> (\<forall>c \<in> set ''00''. is_digit c)"
  "digits_val ''23'' = 23" "digits_val ''00'' = 0"
  by (simp_all add: shop_with_order_def local_or_def is_digit_def digits_val_def digit_val_def)



text \<open>
  The last-reset marker is a UTC date, the closing time is local time. In a shop eight
  hours behind UTC, a start at 15:30 and a start at 16:30 of the same calendar day,
  both long before the closing time 23:00, read two different dates, and each of them
  completes a rollover.
\<close>

lemma two_rollovers_across_utc_midnight:
  "now_local_date pacific_later_afternoon = now_local_date pacific_afternoon
   \<and> \<not> afterClosing pacific_afternoon (st_local shop_with_order)
   \<and> \<not> afterClosing pacific_later_afternoon (st_local shop_with_order)
   \<and> fst (maybeDailyReset pacific_afternoon shop_with_order) = Triggered None
   \<and> fst (maybeDailyReset pacific_later_afternoon
             (snd (maybeDailyReset pacific_afternoon shop_with_order))) = Triggered None"
proof -
  let ?st1 = "snd (closeShopNow pacific_afternoon shop_with_order)"
  have db: "st_db shop_with_order" by (simp add: shop_with_order_def)
  have marker: "local_or (st_local shop_with_order) ''lastResetDate'' [] \<noteq> now_iso_date pacific_afternoon"
    by (simp add: shop_with_order_def local_or_def pacific_afternoon_def)
  then have first: "maybeDailyReset pacific_afternoon shop_with_order = (Triggered None, ?st1)"
    using closeShopNow_ok(1)[OF db, of pacific_afternoon] by (simp add: maybeDailyReset_cases)
  have db1: "st_db ?st1" by (rule closeShopNow_ok(4)[OF db])
  have early: "\<not> afterClosing pacific_afternoon (st_local shop_with_order)"
      "\<not> afterClosing pacific_later_afternoon (st_local shop_with_order)"
    using afterClosing_clock[of "''23''" "''00''" "st_local shop_with_order" pacific_afternoon]
      afterClosing_clock[of "''23''" "''00''" "st_local shop_with_order" pacific_later_afternoon]
      default_closing
    by (simp_all add: pacific_afternoon_def pacific_later_afternoon_def)
  have "local_or (st_local ?st1) ''lastResetDate'' [] \<noteq> now_iso_date pacific_later_afternoon"
    using marker_after_close[OF db, of pacific_afternoon]
    by (simp add: pacific_afternoon_def pacific_later_afternoon_def)
  then have second: "fst (maybeDailyReset pacific_later_afternoon ?st1) = Triggered None"
    using closeShopNow_ok(1)[OF db1, of pacific_later_afternoon] by (simp add: maybeDailyReset_cases)
  show ?thesis
    using first second early by (simp add: pacific_afternoon_def pacific_later_afternoon_def)
qed

subsection \<open>Import and export\<close>

lemma key_lt_irrefl: "\<not> key_lt k k"
  by (simp add: key_lt_def)

lemma key_lt_asym: "key_lt a b \<Longrightarrow> \<not> key_lt b a"
  by (auto simp: key_lt_def)

lemma key_lt_trans: "key_lt a b \<Longrightarrow> key_lt b c \<Longrightarrow> key_lt a c"
  by (auto simp: key_lt_def)

lemma store_put_append:
  "\<forall>p \<in> set s. key_lt (fst p) k \<Longrightarrow> store_put k v s = s @ [(k, v)]"
proof (induction s)
  case Nil
  then show ?case by simp
next
  case (Cons p s)
  obtain k' v' where p: "p = (k', v')" by (cases p)
  from Cons.prems p have lt: "key_lt k' k" by simp
  then have "k \<noteq> k'" "\<not> key_lt k k'"
    using key_lt_irrefl key_lt_asym by blast+
  with Cons p show ?case by simp
qed

lemma store_get_absent:
  "\<forall>p \<in> set s. key_lt (fst p) k \<Longrightarrow> store_get k s = None"
proof -
  assume a: "\<forall>p \<in> set s. key_lt (fst p) k"
  have "k \<notin> fst ` set s"
  proof
    assume "k \<in> fst ` set s"
    then obtain p where "p \<in> set s" "fst p = k" by auto
    with a have "key_lt k k" by auto
    then show False by (simp add: key_lt_irrefl)
  qed
  then show ?thesis by (simp add: store_get_def map_of_eq_None_iff)
qed

lemma add_each_rebuild:
  "wf_store (s1 @ s2) \<Longrightarrow> add_each (map snd s2) s1 = (None, s1 @ s2)"
proof (induction s2 arbitrary: s1)
  case Nil
  then show ?case by simp
next
  case (Cons p s2)
  obtain k v where p: "p = (k, v)" by (cases p)
  from Cons.prems p have key: "key_of v = Some k"
    by (auto simp: wf_store_def)
  from Cons.prems p have below: "\<forall>q \<in> set s1. key_lt (fst q) k"
    by (auto simp: wf_store_def sorted_wrt_append)
  have step: "add_record v s1 = Inr (s1 @ [(k, v)])"
    by (simp add: add_record_def key store_get_absent[OF below] store_put_append[OF below])
  from Cons.prems p have "wf_store ((s1 @ [(k, v)]) @ s2)" by simp
  then have "add_each (map snd s2) (s1 @ [(k, v)]) = (None, (s1 @ [(k, v)]) @ s2)"
    by (rule Cons.IH)
  with step p show ?case by simp
qed

lemma add_each_all: "wf_store s \<Longrightarrow> add_each (store_getAll s) [] = (None, s)"
  using add_each_rebuild[of "[]" s] by (simp add: store_getAll_def)

lemma store_put_fresh_set:
  "map_of s k = None \<Longrightarrow>
     set (store_put k v s) = insert (k, v) (set s) \<and> length (store_put k v s) = Suc (length s)"
  by (induction s) (auto split: if_splits)

lemma store_put_fresh:
  "store_get k s = None \<Longrightarrow>
     set (store_getAll (store_put k v s)) = insert v (set (store_getAll s))
     \<and> length (store_put k v s) = Suc (length s)"
  using store_put_fresh_set[of s k v] by (simp add: store_get_def store_getAll_def)

lemma add_each_contents:
  "add_each vs s = (None, s') \<Longrightarrow>
     set (store_getAll s') = set (store_getAll s) \<union> set vs \<and> length s' = length s + length vs"
proof (induction vs arbitrary: s)
  case Nil
  then show ?case by simp
next
  case (Cons v vs)
  from Cons.prems obtain k where k: "key_of v = Some k" "store_get k s = None"
      and rest: "add_each vs (store_put k v s) = (None, s')"
    by (auto simp: add_record_def split: option.splits if_splits)
  from Cons.IH[OF rest] store_put_fresh[OF k(2), of v] show ?case by auto
qed

lemma add_each_distinct_ok:
  "\<forall>v \<in> set vs. \<exists>k. key_of v = Some k \<and> store_get k s = None \<Longrightarrow>
   distinct (map key_of vs) \<Longrightarrow> fst (add_each vs s) = None"
proof (induction vs arbitrary: s)
  case Nil
  then show ?case by simp
next
  case (Cons v vs)
  from Cons.prems(1) obtain k where k: "key_of v = Some k" "store_get k s = None" by auto
  have "\<forall>w \<in> set vs. \<exists>k'. key_of w = Some k' \<and> store_get k' (store_put k v s) = None"
  proof
    fix w assume w: "w \<in> set vs"
    with Cons.prems(1) obtain k' where k': "key_of w = Some k'" "store_get k' s = None" by auto
    from w Cons.prems(2) k(1) k'(1) have "k' \<noteq> k" by force
    with k' show "\<exists>k'. key_of w = Some k' \<and> store_get k' (store_put k v s) = None"
      by (simp add: store_get_put)
  qed
  moreover from Cons.prems(2) have "distinct (map key_of vs)" by simp
  ultimately have "fst (add_each vs (store_put k v s)) = None" by (rule Cons.IH)
  with k show ?case by (simp add: add_record_def)
qed

lemma isValidMenuItem_key: "isValidMenuItem v \<Longrightarrow> \<exists>k. key_of v = Some k"
  by (cases "jprop v ''id''")
    (auto simp: isValidMenuItem_def key_of_def key_of_val_def is_string_def is_number_def)

lemma takeWhile_keys: "\<forall>v \<in> set vs. \<exists>k. key_of v = Some k \<Longrightarrow> takeWhile (\<lambda>item. key_of item \<noteq> None) vs = vs"
  by (simp add: takeWhile_eq_all_conv del: not_None_eq) auto

lemma saveMenu_keyed:
  assumes "st_db st" and "\<forall>v \<in> set vs. \<exists>k. key_of v = Some k"
  shows "saveMenu vs st =
     (case add_each vs [] of (Some e, s) \<Rightarrow> (Some e, st) | (None, s) \<Rightarrow> (None, st\<lparr>st_menu := s\<rparr>))"
  using assms(1)
  by (simp add: saveMenu_def takeWhile_keys[OF assms(2)] Let_def del: not_None_eq
      split: prod.splits option.splits)

lemma import_shape:
  "truthy json \<and> is_object json \<and> is_array (jprop json ''menu'') \<and> is_array (jprop json ''orders'')
     \<longleftrightarrow> (\<exists>fs ms os. json = JObj fs \<and> jprop json ''menu'' = JArr ms \<and> jprop json ''orders'' = JArr os)"
proof
  assume a: "truthy json \<and> is_object json \<and> is_array (jprop json ''menu'') \<and> is_array (jprop json ''orders'')"
  then obtain ms os where "jprop json ''menu'' = JArr ms" "jprop json ''orders'' = JArr os"
    by (auto simp: is_array_def split: jsval.splits)
  moreover from this obtain fs where "json = JObj fs"
    by (cases json) (simp_all add: jprop_def)
  ultimately show "\<exists>fs ms os. json = JObj fs \<and> jprop json ''menu'' = JArr ms \<and> jprop json ''orders'' = JArr os"
    by blast
next
  assume "\<exists>fs ms os. json = JObj fs \<and> jprop json ''menu'' = JArr ms \<and> jprop json ''orders'' = JArr os"
  then show "truthy json \<and> is_object json \<and> is_array (jprop json ''menu'') \<and> is_array (jprop json ''orders'')"
    by (auto simp: is_object_def is_array_def)
qed

lemma import_orders_None:
  "import_orders vs old = (None, s) \<longleftrightarrow> add_each vs [] = (None, s)"
  by (auto simp: import_orders_def split: prod.splits option.splits error.splits)

lemma add_each_errors: "fst (add_each vs s) \<in> {None, Some DataError, Some ConstraintError}"
  by (induction vs arbitrary: s) (auto simp: add_record_def split: option.splits)

lemma import_orders_errors:
  "fst (import_orders vs old) \<in> {None, Some DataError, Some ConstraintError}"
  using add_each_errors[of vs "[]"]
  by (auto simp: import_orders_def split: prod.splits option.splits error.splits)

lemma importAll_shaped:
  assumes "st_db st" and "jprop (JObj fs) ''menu'' = JArr ms" and "jprop (JObj fs) ''orders'' = JArr os"
  shows "importAll (JObj fs) st =
     (if filter isValidMenuItem ms = [] \<and> ms \<noteq> [] then (Some InvalidBackup, st)
      else case add_each (filter isValidMenuItem ms) [] of
             (Some e, s) \<Rightarrow> (Some e, st)
           | (None, s) \<Rightarrow>
               (case import_orders (filter isValidOrder os) (st_orders st) of
                  (r, s2) \<Rightarrow> (r, st\<lparr>st_menu := s, st_orders := s2\<rparr>)))"
proof -
  have keys: "\<forall>v \<in> set (filter isValidMenuItem ms). \<exists>k. key_of v = Some k"
    using isValidMenuItem_key by simp
  show ?thesis
    using assms(1)
    by (simp add: importAll_def assms(2,3) is_object_def is_array_def array_items_def Let_def
        saveMenu_keyed[OF assms(1) keys] split: prod.splits option.splits)
qed

text \<open>
  C5. \<^verbatim>\<open>importAll\<close> rejects with "Invalid backup file" when the snapshot is falsy or
  not an object, or its menu or its orders is not an array. With an initialised
  database and a snapshot of that shape: it rejects with "Invalid backup file" when no
  menu item passes the predicate although the menu has items; a menu that is literally
  empty is never rejected as an invalid backup; when the valid menu items have distinct
  ids and the valid orders have distinct ids (and the menu is not all invalid) the
  import succeeds; and whenever it succeeds, the menu store holds exactly the menu
  items that pass \<^verbatim>\<open>isValidMenuItem\<close> and the orders store exactly the orders that pass
  \<^verbatim>\<open>isValidOrder\<close>, each once, and nothing of what the stores held before; archive,
  \<^verbatim>\<open>localStorage\<close> and basket are untouched.
\<close>

theorem importAll_validates_and_replaces:
  "(\<not> truthy json \<or> \<not> is_object json \<or> \<not> is_array (jprop json ''menu'')
      \<or> \<not> is_array (jprop json ''orders'') \<longrightarrow> importAll json st = (Some InvalidBackup, st))
   \<and> (st_db st \<and> jprop (JObj fs) ''menu'' = JArr ms \<and> jprop (JObj fs) ''orders'' = JArr os \<longrightarrow>
        (filter isValidMenuItem ms = [] \<and> ms \<noteq> [] \<longrightarrow>
           importAll (JObj fs) st = (Some InvalidBackup, st))
        \<and> (ms = [] \<longrightarrow> fst (importAll (JObj fs) st) \<noteq> Some InvalidBackup)
        \<and> (\<not> (filter isValidMenuItem ms = [] \<and> ms \<noteq> [])
             \<and> distinct (map key_of (filter isValidMenuItem ms))
             \<and> distinct (map key_of (filter isValidOrder os)) \<longrightarrow>
           fst (importAll (JObj fs) st) = None)
        \<and> (\<forall>st'. importAll (JObj fs) st = (None, st') \<longrightarrow>
             set (store_getAll (st_menu st')) = set (filter isValidMenuItem ms)
             \<and> length (st_menu st') = length (filter isValidMenuItem ms)
             \<and> set (store_getAll (st_orders st')) = set (filter isValidOrder os)
             \<and> length (st_orders st') = length (filter isValidOrder os)
             \<and> st_archive st' = st_archive st \<and> st_local st' = st_local st
             \<and> st_basket st' = st_basket st))"
proof (intro conjI impI allI)
  assume "\<not> truthy json \<or> \<not> is_object json \<or> \<not> is_array (jprop json ''menu'')
      \<or> \<not> is_array (jprop json ''orders'')"
  then show "importAll json st = (Some InvalidBackup, st)"
    by (auto simp: importAll_def)
next
  assume a: "st_db st \<and> jprop (JObj fs) ''menu'' = JArr ms \<and> jprop (JObj fs) ''orders'' = JArr os"
  then have sh: "importAll (JObj fs) st =
     (if filter isValidMenuItem ms = [] \<and> ms \<noteq> [] then (Some InvalidBackup, st)
      else case add_each (filter isValidMenuItem ms) [] of
             (Some e, s) \<Rightarrow> (Some e, st)
           | (None, s) \<Rightarrow>
               (case import_orders (filter isValidOrder os) (st_orders st) of
                  (r, s2) \<Rightarrow> (r, st\<lparr>st_menu := s, st_orders := s2\<rparr>)))"
    using importAll_shaped by blast
  {
    assume "filter isValidMenuItem ms = [] \<and> ms \<noteq> []"
    then show "importAll (JObj fs) st = (Some InvalidBackup, st)"
      by (simp add: sh)
  }
  {
    assume "ms = []"
    then show "fst (importAll (JObj fs) st) \<noteq> Some InvalidBackup"
      using import_orders_errors[of "filter isValidOrder os" "st_orders st"]
      by (auto simp: sh split: prod.splits)
  }
  {
    assume d: "\<not> (filter isValidMenuItem ms = [] \<and> ms \<noteq> [])
             \<and> distinct (map key_of (filter isValidMenuItem ms))
             \<and> distinct (map key_of (filter isValidOrder os))"
    have "fst (add_each (filter isValidMenuItem ms) []) = None"
      using d isValidMenuItem_key by (intro add_each_distinct_ok) (auto simp: store_get_def)
    then obtain s where s: "add_each (filter isValidMenuItem ms) [] = (None, s)"
      by (cases "add_each (filter isValidMenuItem ms) []") auto
    have "fst (add_each (filter isValidOrder os) []) = None"
      using d isValidOrder_key by (intro add_each_distinct_ok) (auto simp: store_get_def)
    then obtain s2 where "add_each (filter isValidOrder os) [] = (None, s2)"
      by (cases "add_each (filter isValidOrder os) []") auto
    then have "import_orders (filter isValidOrder os) (st_orders st) = (None, s2)"
      by (simp add: import_orders_None)
    with d s show "fst (importAll (JObj fs) st) = None"
      by (auto simp: sh)
  }
  {
    fix st'
    assume ok: "importAll (JObj fs) st = (None, st')"
    then have ne: "\<not> (filter isValidMenuItem ms = [] \<and> ms \<noteq> [])"
      by (auto simp: sh split: if_splits)
    from ok ne obtain s s2 where s: "add_each (filter isValidMenuItem ms) [] = (None, s)"
        and s2: "import_orders (filter isValidOrder os) (st_orders st) = (None, s2)"
        and st': "st' = st\<lparr>st_menu := s, st_orders := s2\<rparr>"
      by (auto simp: sh split: prod.splits option.splits if_splits)
    from s2 have o: "add_each (filter isValidOrder os) [] = (None, s2)"
      by (simp add: import_orders_None)
    from add_each_contents[OF s] add_each_contents[OF o]
    show "set (store_getAll (st_menu st')) = set (filter isValidMenuItem ms)"
        "length (st_menu st') = length (filter isValidMenuItem ms)"
        "set (store_getAll (st_orders st')) = set (filter isValidOrder os)"
        "length (st_orders st') = length (filter isValidOrder os)"
        "st_archive st' = st_archive st" "st_local st' = st_local st"
        "st_basket st' = st_basket st"
      by (simp_all add: st' store_getAll_def)
  }
qed

text \<open>
  C6. For a state with an initialised database whose menu and orders stores hold only
  records that pass the structural predicates, \<^verbatim>\<open>exportAll\<close> returns the menu and the
  orders (and not the archive), and importing that snapshot succeeds and gives back the
  very same state: menu, orders, archive and everything else.
\<close>

theorem import_export_roundtrip:
  "st_db st \<and> wf_store (st_menu st) \<and> wf_store (st_orders st)
     \<and> (\<forall>v \<in> set (store_getAll (st_menu st)). isValidMenuItem v)
     \<and> (\<forall>v \<in> set (store_getAll (st_orders st)). isValidOrder v)
   \<Longrightarrow> exportAll st = Inr (JObj [(''menu'', JArr (store_getAll (st_menu st))),
                                  (''orders'', JArr (store_getAll (st_orders st)))])
     \<and> importAll (JObj [(''menu'', JArr (store_getAll (st_menu st))),
                        (''orders'', JArr (store_getAll (st_orders st)))]) st = (None, st)"
proof -
  assume a: "st_db st \<and> wf_store (st_menu st) \<and> wf_store (st_orders st)
     \<and> (\<forall>v \<in> set (store_getAll (st_menu st)). isValidMenuItem v)
     \<and> (\<forall>v \<in> set (store_getAll (st_orders st)). isValidOrder v)"
  let ?ms = "store_getAll (st_menu st)" and ?os = "store_getAll (st_orders st)"
  let ?snap = "JObj [(''menu'', JArr ?ms), (''orders'', JArr ?os)]"
  from a have fm: "filter isValidMenuItem ?ms = ?ms" and fo: "filter isValidOrder ?os = ?os"
    by (simp_all add: filter_id_conv)
  from a have ex: "exportAll st = Inr ?snap"
    by (simp add: exportAll_def getMenu_def getAllOrders_def fm fo)
  have props: "jprop ?snap ''menu'' = JArr ?ms" "jprop ?snap ''orders'' = JArr ?os"
    by (simp_all add: jprop_def)
  from a have keys: "\<forall>v \<in> set ?ms. \<exists>k. key_of v = Some k"
    using isValidMenuItem_key by blast
  from a have m: "add_each ?ms [] = (None, st_menu st)" and o: "add_each ?os [] = (None, st_orders st)"
    by (simp_all add: add_each_all)
  from a have sm: "saveMenu ?ms st = (None, st)"
    by (simp add: saveMenu_keyed[OF _ keys] m)
  from a have "importAll ?snap st = (None, st)"
    by (simp add: importAll_def props is_object_def is_array_def array_items_def fm fo sm
        import_orders_def o Let_def)
  with ex show ?thesis by simp
qed

text \<open>Every write keeps the invariant of the stores, so it holds in every state the application reaches.\<close>

lemma key_rank_inj: "key_rank a = key_rank b \<Longrightarrow> a = b"
  by (cases a rule: key_rank.cases; cases b rule: key_rank.cases) simp_all

lemma key_lt_total: "a \<noteq> b \<Longrightarrow> \<not> key_lt a b \<Longrightarrow> key_lt b a"
proof -
  assume "a \<noteq> b" and n: "\<not> key_lt a b"
  then have ne: "key_rank b \<noteq> key_rank a"
    using key_rank_inj[of a b] by auto
  from n have "key_rank b \<le> key_rank a"
    by (simp add: key_lt_def not_less)
  with ne show "key_lt b a"
    unfolding key_lt_def by (rule order.not_eq_order_implies_strict)
qed

lemma store_put_keys: "fst ` set (store_put k v s) = insert k (fst ` set s)"
proof (induction s)
  case Nil
  show ?case by simp
next
  case (Cons p s)
  obtain k' v' where p: "p = (k', v')" by (cases p)
  show ?case by (simp add: p Cons.IH insert_commute)
qed

lemma store_put_sorted:
  "sorted_wrt (\<lambda>a b. key_lt (fst a) (fst b)) s \<Longrightarrow>
   sorted_wrt (\<lambda>a b. key_lt (fst a) (fst b)) (store_put k v s)"
proof (induction s)
  case Nil
  then show ?case by simp
next
  case (Cons p s)
  obtain k' v' where p: "p = (k', v')" by (cases p)
  show ?case
  proof (cases "k = k'")
    case True
    with Cons.prems p show ?thesis by simp
  next
    case False
    show ?thesis
    proof (cases "key_lt k k'")
      case True
      with Cons.prems p False show ?thesis
        by (auto intro: key_lt_trans)
    next
      case nlt: False
      then have lt: "key_lt k' k" using False key_lt_total by blast
      from Cons.prems have "sorted_wrt (\<lambda>a b. key_lt (fst a) (fst b)) s" by simp
      then have ih: "sorted_wrt (\<lambda>a b. key_lt (fst a) (fst b)) (store_put k v s)"
        by (rule Cons.IH)
      have "\<forall>q \<in> set (store_put k v s). key_lt k' (fst q)"
      proof
        fix q assume "q \<in> set (store_put k v s)"
        then have "fst q \<in> insert k (fst ` set s)"
          using store_put_keys[of k v s] by auto
        with Cons.prems p lt show "key_lt k' (fst q)" by auto
      qed
      with ih p False nlt show ?thesis by simp
    qed
  qed
qed

lemma store_put_inline:
  "key_of v = Some k \<Longrightarrow> \<forall>(k', v') \<in> set s. key_of v' = Some k' \<Longrightarrow>
   \<forall>(k', v') \<in> set (store_put k v s). key_of v' = Some k'"
  by (induction s) (auto split: if_splits)

lemma store_put_wf: "wf_store s \<Longrightarrow> key_of v = Some k \<Longrightarrow> wf_store (store_put k v s)"
  unfolding wf_store_def using store_put_sorted store_put_inline by blast

lemmas valid_eval = isValidMenuItem_def isValidOrder_def is_object_def is_array_def is_string_def
  is_number_def is_finite_number_def jprop_def

lemma example_records:
  "isValidMenuItem momos_record" "\<not> isValidMenuItem broken_record"
  "isValidOrder (order_json fried_rice_order)" "\<not> isValidOrder JNull"
  by (simp_all add: valid_eval momos_record_def broken_record_def order_json_def
      fried_rice_order_def)

theorem import_export_roundtrip_witness:
  "exportAll stocked_shop = Inr (JObj [(''menu'', JArr [momos_record]),
                                       (''orders'', JArr [order_json fried_rice_order])])
   \<and> importAll (JObj [(''menu'', JArr [momos_record]),
                      (''orders'', JArr [order_json fried_rice_order])]) stocked_shop
       = (None, stocked_shop)"
proof -
  have h: "st_db stocked_shop \<and> wf_store (st_menu stocked_shop) \<and> wf_store (st_orders stocked_shop)
     \<and> (\<forall>v \<in> set (store_getAll (st_menu stocked_shop)). isValidMenuItem v)
     \<and> (\<forall>v \<in> set (store_getAll (st_orders stocked_shop)). isValidOrder v)"
  proof -
    have "ord_id fried_rice_order = ''ord-abc123''"
      by (simp add: fried_rice_order_def)
    moreover have "key_of momos_record = Some (KNum (Fin 1))"
      by (simp add: key_of_def key_of_val_def jprop_def momos_record_def)
    ultimately show ?thesis
      by (simp add: stocked_shop_def shop_with_order_def wf_store_def store_getAll_def
          example_records key_of_order_json)
  qed
  have g: "store_getAll (st_menu stocked_shop) = [momos_record]"
      "store_getAll (st_orders stocked_shop) = [order_json fried_rice_order]"
    by (simp_all add: stocked_shop_def shop_with_order_def store_getAll_def)
  from import_export_roundtrip[OF h] show ?thesis
    by (simp only: g)
qed

theorem importAll_validates_and_replaces_witness:
  "importAll (JStr ''backup'') shop_with_order = (Some InvalidBackup, shop_with_order)
   \<and> importAll (JObj [(''menu'', JArr [broken_record]), (''orders'', JArr [])]) shop_with_order
       = (Some InvalidBackup, shop_with_order)
   \<and> fst (importAll (JObj [(''menu'', JArr []), (''orders'', JArr [])]) shop_with_order) = None
   \<and> (\<exists>st'. importAll (JObj [(''menu'', JArr [momos_record, broken_record]),
                              (''orders'', JArr [JNull])]) shop_with_order = (None, st')
        \<and> set (store_getAll (st_menu st')) = {momos_record}
        \<and> st_orders st' = [])"
proof -
  let ?bad = "[(''menu'', JArr [broken_record]), (''orders'', JArr [])]"
  let ?empty = "[(''menu'', JArr []), (''orders'', JArr [])]"
  let ?mixed = "[(''menu'', JArr [momos_record, broken_record]), (''orders'', JArr [JNull])]"
  have db: "st_db shop_with_order" by (simp add: shop_with_order_def)
  have "importAll (JStr ''backup'') shop_with_order = (Some InvalidBackup, shop_with_order)"
    using importAll_validates_and_replaces[of "JStr ''backup''" shop_with_order "[]" "[]" "[]"]
    by (simp add: is_object_def)
  moreover have "importAll (JObj ?bad) shop_with_order = (Some InvalidBackup, shop_with_order)"
    using importAll_validates_and_replaces[of "JObj ?bad" shop_with_order ?bad "[broken_record]" "[]"]
      db
    by (simp add: jprop_def example_records)
  moreover have "fst (importAll (JObj ?empty) shop_with_order) = None"
    using importAll_validates_and_replaces[of "JObj ?empty" shop_with_order ?empty "[]" "[]"] db
    by (simp add: jprop_def)
  moreover have "\<exists>st'. importAll (JObj ?mixed) shop_with_order = (None, st')
        \<and> set (store_getAll (st_menu st')) = {momos_record} \<and> st_orders st' = []"
  proof -
    note t = importAll_validates_and_replaces[of "JObj ?mixed" shop_with_order ?mixed
        "[momos_record, broken_record]" "[JNull]"]
    have p: "st_db shop_with_order \<and> jprop (JObj ?mixed) ''menu'' = JArr [momos_record, broken_record]
        \<and> jprop (JObj ?mixed) ''orders'' = JArr [JNull]"
      by (simp add: jprop_def db)
    have f: "filter isValidMenuItem [momos_record, broken_record] = [momos_record]"
        "filter isValidOrder [JNull] = []"
      by (simp_all add: example_records)
    from t p f have "fst (importAll (JObj ?mixed) shop_with_order) = None"
      by simp
    then obtain st' where ok: "importAll (JObj ?mixed) shop_with_order = (None, st')"
      by (cases "importAll (JObj ?mixed) shop_with_order") auto
    with t p f have "set (store_getAll (st_menu st')) = {momos_record} \<and> length (st_orders st') = 0"
      by simp
    with ok show ?thesis by auto
  qed
  ultimately show ?thesis by blast
qed

end
